theory Spec2Isabelle
  imports Complex_Main "HOL-Library.Log_Nat"
begin

section \<open>Strings\<close>

text \<open>
  A JavaScript string is a sequence of UTF-16 code units. The model uses \<^typ>\<open>string\<close>:
  a \<^typ>\<open>char\<close> stands for a code unit in the range U+0000 .. U+00FF. On that range the
  character classes below are the ones of ECMAScript, and \<open>toUpperCase\<close> is the one of
  ECMAScript (U+00DF becomes \<open>SS\<close>) but for two code units whose upper-case form leaves the
  range: U+00B5 and U+00FF stand for their upper-case forms U+039C and U+0178 as well. No
  pattern, class or keyword of the parser tells U+00B5 from U+039C or U+00FF from U+0178.
\<close>

definition is_digit :: "char \<Rightarrow> bool" where
  \<comment> \<open>the class \<open>\\d\<close>\<close>
  "is_digit c = (c \<in> set ''0123456789'')"

definition is_space :: "char \<Rightarrow> bool" where
  \<comment> \<open>the class \<open>\\s\<close>, also what \<open>trim\<close> strips: TAB, LF, VT, FF, CR, SP, NBSP\<close>
  "is_space c = (c \<in> set [CHR 0x09, CHR 0x0A, CHR 0x0B, CHR 0x0C, CHR 0x0D, CHR '' '', CHR 0xA0])"

definition is_word :: "char \<Rightarrow> bool" where
  \<comment> \<open>the class \<open>\\w\<close>, used by \<open>\\b\<close>\<close>
  "is_word c = (c \<in> set ''abcdefghijklmnopqrstuvwxyzABCDEFGHIJKLMNOPQRSTUVWXYZ0123456789_'')"

definition is_dot :: "char \<Rightarrow> bool" where
  \<comment> \<open>the class \<open>.\<close>: anything but a line terminator\<close>
  "is_dot c = (c \<noteq> CHR 0x0A \<and> c \<noteq> CHR 0x0D)"

definition canonicalize :: "char \<Rightarrow> char" where
  \<comment> \<open>the upper-case form of a code unit when that is one code unit, the code unit itself
      otherwise (U+00DF): what the \<open>i\<close> flag of a regular expression compares\<close>
  "canonicalize c =
     (let n = (of_char c :: nat)
      in if (97 \<le> n \<and> n \<le> 122) \<or> (224 \<le> n \<and> n \<le> 254 \<and> n \<noteq> 247)
         then char_of (n - 32) else c)"

definition toUpperCase :: "string \<Rightarrow> string" where
  \<comment> \<open>\<open>s.toUpperCase()\<close>: U+00DF becomes the two letters \<open>SS\<close>\<close>
  "toUpperCase s = concat (map (\<lambda>c. if c = CHR 0xDF then ''SS'' else [canonicalize c]) s)"

definition trim :: "string \<Rightarrow> string" where
  "trim s = rev (dropWhile is_space (rev (dropWhile is_space s)))"

fun split_on :: "char \<Rightarrow> string \<Rightarrow> string list" where
  "split_on d [] = [[]]"
| "split_on d (c # cs) =
     (if c = d then [] # split_on d cs
      else (case split_on d cs of [] \<Rightarrow> [[c]] | w # ws \<Rightarrow> (c # w) # ws))"

fun join :: "string \<Rightarrow> string list \<Rightarrow> string" where
  "join sep [] = []"
| "join sep [x] = x"
| "join sep (x # y # ys) = x @ sep @ join sep (y # ys)"

fun startsWith :: "string \<Rightarrow> string \<Rightarrow> bool" where
  "startsWith s [] = True"
| "startsWith [] (k # ks) = False"
| "startsWith (c # cs) (k # ks) = (c = k \<and> startsWith cs ks)"

fun str_includes :: "string \<Rightarrow> string \<Rightarrow> bool" where
  \<comment> \<open>\<open>s.includes(k)\<close>\<close>
  "str_includes [] k = (k = [])"
| "str_includes (c # cs) k = (startsWith (c # cs) k \<or> str_includes cs k)"

fun lastIndexOf :: "string \<Rightarrow> char \<Rightarrow> int" where
  \<comment> \<open>\<open>-1\<close> when the character does not occur\<close>
  "lastIndexOf [] x = -1"
| "lastIndexOf (c # cs) x =
     (let r = lastIndexOf cs x in if r \<ge> 0 then r + 1 else if c = x then 0 else -1)"

fun replace_char_first :: "char \<Rightarrow> char \<Rightarrow> string \<Rightarrow> string" where
  \<comment> \<open>\<open>s.replace(a, b)\<close> with a string pattern: the first occurrence only\<close>
  "replace_char_first a b [] = []"
| "replace_char_first a b (c # cs) = (if c = a then b # cs else c # replace_char_first a b cs)"

definition padStart2 :: "string \<Rightarrow> string" where
  \<comment> \<open>\<open>s.padStart(2, '0')\<close>\<close>
  "padStart2 s = replicate (2 - length s) (CHR ''0'') @ s"

section \<open>Numbers\<close>

text \<open>
  A JavaScript number is an IEEE 754 double, an infinity or NaN. A finite double is given by
  its value, a rational; \<open>to_double\<close> rounds a rational to the nearest double, to the even
  one at a tie, and to an infinity from \<open>2^1024\<close> on. Arithmetic rounds the exact result.
  The two zeros are not told apart: the parser never produces \<open>-0\<close>.
\<close>

datatype number = Fin rat | PInf | NInf | NaN

definition pow2 :: "int \<Rightarrow> rat" where
  "pow2 e = (if 0 \<le> e then of_int (2 ^ nat e) else 1 / of_int (2 ^ nat (- e)))"

definition floor_log2 :: "rat \<Rightarrow> int" where
  \<comment> \<open>for \<open>a > 0\<close>, the \<open>e\<close> with \<open>2^e \<le> a < 2^(e+1)\<close>\<close>
  "floor_log2 a =
     (let (p, q) = quotient_of a; d = bitlen p - bitlen q
      in if pow2 d \<le> a then d else d - 1)"

definition round_half_even :: "rat \<Rightarrow> int" where
  "round_half_even y =
     (let f = \<lfloor>y\<rfloor>; r = y - of_int f
      in if r < 1 / 2 then f else if 1 / 2 < r then f + 1 else if even f then f else f + 1)"

definition to_double :: "rat \<Rightarrow> number" where
  \<comment> \<open>53 significant bits, exponents from \<open>-1022\<close> (below that the spacing stays \<open>2^-1074\<close>)
      to \<open>1023\<close>; the rounded value reaches \<open>2^1024\<close> when \<open>e\<close> exceeds 1023 or the
      significand carries at \<open>e = 1023\<close>\<close>
  "to_double x =
     (if x = 0 then Fin 0
      else
        (let a = \<bar>x\<bar>;
             e = max (floor_log2 a) (- 1022);
             n = round_half_even (a / pow2 (e - 52))
         in if 1023 < e \<or> (e = 1023 \<and> n = 2 ^ 53) then (if 0 < x then PInf else NInf)
            else Fin ((if 0 < x then 1 else - 1) * of_int n * pow2 (e - 52))))"

fun num_neg :: "number \<Rightarrow> number" where
  "num_neg (Fin a) = Fin (- a)"
| "num_neg PInf = NInf"
| "num_neg NInf = PInf"
| "num_neg NaN = NaN"

fun num_add :: "number \<Rightarrow> number \<Rightarrow> number" where
  "num_add (Fin a) (Fin b) = to_double (a + b)"
| "num_add (Fin a) PInf = PInf"
| "num_add (Fin a) NInf = NInf"
| "num_add PInf (Fin b) = PInf"
| "num_add PInf PInf = PInf"
| "num_add NInf (Fin b) = NInf"
| "num_add NInf NInf = NInf"
| "num_add PInf NInf = NaN"
| "num_add NInf PInf = NaN"
| "num_add NaN y = NaN"
| "num_add x NaN = NaN"

definition num_sub :: "number \<Rightarrow> number \<Rightarrow> number" where
  "num_sub x y = num_add x (num_neg y)"

fun num_abs :: "number \<Rightarrow> number" where
  \<comment> \<open>\<open>Math.abs\<close>\<close>
  "num_abs (Fin a) = Fin \<bar>a\<bar>"
| "num_abs PInf = PInf"
| "num_abs NInf = PInf"
| "num_abs NaN = NaN"

fun num_less :: "number \<Rightarrow> number \<Rightarrow> bool" where
  \<comment> \<open>\<open>x < y\<close>; \<open>x > y\<close> is \<open>num_less y x\<close>. A comparison with NaN is false.\<close>
  "num_less (Fin a) (Fin b) = (a < b)"
| "num_less (Fin a) PInf = True"
| "num_less NInf (Fin b) = True"
| "num_less NInf PInf = True"
| "num_less x y = False"

fun num_max :: "number \<Rightarrow> number \<Rightarrow> number" where
  \<comment> \<open>\<open>Math.max(x, y)\<close>\<close>
  "num_max NaN y = NaN"
| "num_max x NaN = NaN"
| "num_max x y = (if num_less x y then y else x)"

definition math_max :: "number list \<Rightarrow> number" where
  \<comment> \<open>\<open>Math.max(...xs)\<close>, which is \<open>-Infinity\<close> for no argument\<close>
  "math_max xs = fold (\<lambda>x m. num_max m x) xs NInf"

definition toFixed2 :: "number \<Rightarrow> number" where
  \<comment> \<open>\<open>parseFloat(x.toFixed(2))\<close>. \<open>toFixed\<close> prints the multiple of 1/100 nearest to the
      double, the larger one at a tie, and \<open>parseFloat\<close> rounds what is printed to a double;
      from \<open>10^21\<close> on, and for an infinity, \<open>toFixed\<close> prints the number itself\<close>
  "toFixed2 x =
     (case x of
        Fin v \<Rightarrow>
          (if 10 ^ 21 \<le> \<bar>v\<bar> then Fin v
           else to_double ((if v < 0 then - 1 else 1) * of_int \<lfloor>\<bar>v\<bar> * 100 + 1 / 2\<rfloor> / 100))
      | _ \<Rightarrow> x)"

section \<open>Regular expressions\<close>

text \<open>
  Every regular expression of the parser is a sequence of atoms, an atom being an assertion
  (\<open>^\<close>, \<open>\\b\<close>) or a character class under a greedy quantifier \<open>{lo,hi}\<close>; alternation
  occurs at top level only, and only under \<open>test\<close>. The matcher backtracks as ECMAScript does:
  a quantifier first takes as many characters as it can and gives them back one at a time.
  A match is reported as the number of characters each atom consumed.
\<close>

datatype atom = Rep "char \<Rightarrow> bool" nat "nat option" | WordB | Bol

fun try_counts :: "(nat \<Rightarrow> 'a option) \<Rightarrow> nat list \<Rightarrow> 'a option" where
  "try_counts f [] = None"
| "try_counts f (n # ns) = (case f n of Some r \<Rightarrow> Some r | None \<Rightarrow> try_counts f ns)"

lemma try_counts_cong [fundef_cong]:
  "ns = ns' \<Longrightarrow> (\<And>n. n \<in> set ns' \<Longrightarrow> f n = g n) \<Longrightarrow> try_counts f ns = try_counts g ns'"
  by (induction ns arbitrary: ns') (auto split: option.splits)

definition run_length :: "(char \<Rightarrow> bool) \<Rightarrow> nat option \<Rightarrow> string \<Rightarrow> nat" where
  "run_length c hi s =
     (let k = length (takeWhile c s) in case hi of None \<Rightarrow> k | Some h \<Rightarrow> min h k)"

definition candidates :: "nat \<Rightarrow> nat \<Rightarrow> nat list" where
  \<comment> \<open>\<open>k, k - 1, ..., lo\<close>\<close>
  "candidates lo k = rev [lo ..< Suc k]"

definition prev_after :: "char option \<Rightarrow> string \<Rightarrow> nat \<Rightarrow> char option" where
  \<comment> \<open>the character before the position reached after \<open>n\<close> more characters\<close>
  "prev_after prev s n = (if n = 0 then prev else Some (s ! (n - 1)))"

definition at_boundary :: "char option \<Rightarrow> string \<Rightarrow> bool" where
  "at_boundary prev s =
     ((case prev of None \<Rightarrow> False | Some c \<Rightarrow> is_word c) \<noteq>
      (case s of [] \<Rightarrow> False | c # _ \<Rightarrow> is_word c))"

fun match_here :: "atom list \<Rightarrow> char option \<Rightarrow> string \<Rightarrow> nat list option" where
  "match_here [] prev s = Some []"
| "match_here (Rep c lo hi # as) prev s =
     try_counts (\<lambda>n. map_option ((#) n) (match_here as (prev_after prev s n) (drop n s)))
                (candidates lo (run_length c hi s))"
| "match_here (WordB # as) prev s =
     (if at_boundary prev s then map_option ((#) 0) (match_here as prev s) else None)"
| "match_here (Bol # as) prev s =
     (if prev = None then map_option ((#) 0) (match_here as prev s) else None)"

record rmatch =
  index :: nat
  whole :: string
  parts :: "string list"

fun pieces :: "nat list \<Rightarrow> string \<Rightarrow> string list" where
  "pieces [] s = []"
| "pieces (n # ns) s = take n s # pieces ns (drop n s)"

definition mk_match :: "nat \<Rightarrow> nat list \<Rightarrow> string \<Rightarrow> rmatch" where
  "mk_match i ns s = \<lparr>index = i, whole = take (sum_list ns) s, parts = pieces ns s\<rparr>"

fun exec_from :: "atom list \<Rightarrow> nat \<Rightarrow> char option \<Rightarrow> string \<Rightarrow> rmatch option" where
  \<comment> \<open>the leftmost match at or after the current position\<close>
  "exec_from p i prev [] =
     (case match_here p prev [] of Some ns \<Rightarrow> Some (mk_match i ns []) | None \<Rightarrow> None)"
| "exec_from p i prev (c # cs) =
     (case match_here p prev (c # cs) of
        Some ns \<Rightarrow> Some (mk_match i ns (c # cs))
      | None \<Rightarrow> exec_from p (Suc i) (Some c) cs)"

definition exec :: "atom list \<Rightarrow> string \<Rightarrow> rmatch option" where
  \<comment> \<open>\<open>s.match(p)\<close> for a pattern without the \<open>g\<close> flag\<close>
  "exec p s = exec_from p 0 None s"

definition test :: "atom list \<Rightarrow> string \<Rightarrow> bool" where
  "test p s = (exec p s \<noteq> None)"

definition test_alt :: "atom list list \<Rightarrow> string \<Rightarrow> bool" where
  \<comment> \<open>\<open>test\<close> for an alternation \<open>p1|p2|...\<close>\<close>
  "test_alt ps s = list_ex (\<lambda>p. test p s) ps"

fun matchAll_from :: "atom list \<Rightarrow> nat \<Rightarrow> nat \<Rightarrow> char option \<Rightarrow> string \<Rightarrow> rmatch list" where
  \<comment> \<open>\<open>skip\<close> characters still belong to the match found last; an empty match advances by one\<close>
  "matchAll_from p skip i prev [] =
     (if skip = 0 then (case match_here p prev [] of Some ns \<Rightarrow> [mk_match i ns []] | None \<Rightarrow> [])
      else [])"
| "matchAll_from p skip i prev (c # cs) =
     (if skip = 0 then
        (case match_here p prev (c # cs) of
           Some ns \<Rightarrow> mk_match i ns (c # cs) # matchAll_from p (sum_list ns - 1) (Suc i) (Some c) cs
         | None \<Rightarrow> matchAll_from p 0 (Suc i) (Some c) cs)
      else matchAll_from p (skip - 1) (Suc i) (Some c) cs)"

definition matchAll :: "atom list \<Rightarrow> string \<Rightarrow> rmatch list" where
  \<comment> \<open>\<open>[...s.matchAll(p)]\<close> for a pattern with the \<open>g\<close> flag\<close>
  "matchAll p s = matchAll_from p 0 0 None s"

definition replace_first :: "atom list \<Rightarrow> string \<Rightarrow> string" where
  \<comment> \<open>\<open>s.replace(p, '')\<close> for a pattern without the \<open>g\<close> flag\<close>
  "replace_first p s =
     (case exec p s of None \<Rightarrow> s
      | Some m \<Rightarrow> take (index m) s @ drop (index m + length (whole m)) s)"

abbreviation one :: "(char \<Rightarrow> bool) \<Rightarrow> atom" where
  "one c \<equiv> Rep c 1 (Some 1)"

definition lit :: "char \<Rightarrow> char \<Rightarrow> bool" where
  "lit c x = (x = c)"

definition ci :: "char \<Rightarrow> char \<Rightarrow> bool" where
  \<comment> \<open>a literal character under the \<open>i\<close> flag\<close>
  "ci c x = (canonicalize x = canonicalize c)"

definition ci_word :: "string \<Rightarrow> atom list" where
  "ci_word w = map (\<lambda>c. one (ci c)) w"

fun ci_spaced :: "string \<Rightarrow> atom list" where
  \<comment> \<open>the letters of \<open>w\<close> with \<open>\\s*\<close> between them, under the \<open>i\<close> flag\<close>
  "ci_spaced [] = []"
| "ci_spaced [c] = [one (ci c)]"
| "ci_spaced (c # d # ds) = one (ci c) # Rep is_space 0 None # ci_spaced (d # ds)"

text \<open>
  What a match is, without the search: \<open>valid p prev s ns\<close> holds when the counts \<open>ns\<close>
  cut a prefix of \<open>s\<close> into pieces that satisfy the atoms of \<open>p\<close> one by one.
\<close>

fun valid :: "atom list \<Rightarrow> char option \<Rightarrow> string \<Rightarrow> nat list \<Rightarrow> bool" where
  "valid [] prev s ns = (ns = [])"
| "valid (a # as) prev s [] = False"
| "valid (Rep c lo hi # as) prev s (n # ns) =
     (lo \<le> n \<and> (case hi of None \<Rightarrow> True | Some h \<Rightarrow> n \<le> h) \<and> n \<le> length s
      \<and> list_all c (take n s) \<and> valid as (prev_after prev s n) (drop n s) ns)"
| "valid (WordB # as) prev s (n # ns) = (n = 0 \<and> at_boundary prev s \<and> valid as prev s ns)"
| "valid (Bol # as) prev s (n # ns) = (n = 0 \<and> prev = None \<and> valid as prev s ns)"

section \<open>The price normalizer\<close>

definition digit_val :: "char \<Rightarrow> nat" where
  "digit_val c = of_char c - 48"

definition digits_val :: "string \<Rightarrow> int" where
  "digits_val ds = foldl (\<lambda>a c. 10 * a + int (digit_val c)) 0 ds"

definition parseFloat :: "string \<Rightarrow> number" where
  \<comment> \<open>\<open>parseFloat\<close> on a string of digits and dots, which is all the cleanup of \<open>parsePrice\<close>
      leaves: the double nearest to the longest prefix \<open>digits\<close>, \<open>digits.digits\<close>,
      \<open>digits.\<close> or \<open>.digits\<close>, NaN when there is none\<close>
  "parseFloat s =
     (let ip = takeWhile is_digit s
      in case drop (length ip) s of
           c # r \<Rightarrow>
             (if c = CHR ''.'' then
                (let fp = takeWhile is_digit r
                 in if ip = [] \<and> fp = [] then NaN
                    else to_double (of_int (digits_val ip) + of_int (digits_val fp) / 10 ^ length fp))
              else if ip = [] then NaN else to_double (of_int (digits_val ip)))
         | [] \<Rightarrow> if ip = [] then NaN else to_double (of_int (digits_val ip)))"

definition or_zero :: "number \<Rightarrow> number" where
  \<comment> \<open>\<open>x || 0\<close>: NaN and 0 are the falsy numbers\<close>
  "or_zero x = (if x = NaN \<or> x = Fin 0 then Fin 0 else x)"

definition replace_all :: "char \<Rightarrow> char \<Rightarrow> string \<Rightarrow> string" where
  \<comment> \<open>\<open>s.replace(/a/g, b)\<close>\<close>
  "replace_all a b s = map (\<lambda>c. if c = a then b else c) s"

definition remove_all :: "(char \<Rightarrow> bool) \<Rightarrow> string \<Rightarrow> string" where
  \<comment> \<open>\<open>s.replace(/[class]/g, '')\<close>\<close>
  "remove_all cls s = filter (\<lambda>c. \<not> cls c) s"

definition is_currency :: "char \<Rightarrow> bool" where
  \<comment> \<open>the class \<open>[\<euro>$\<pounds>eE]\<close>; the euro sign is U+20AC, outside the range of \<^typ>\<open>char\<close>\<close>
  "is_currency c = (c \<in> set [CHR ''$'', CHR 0xA3, CHR ''e'', CHR ''E''])"

definition ocr_fix :: "string \<Rightarrow> string" where
  "ocr_fix s =
     (let n = replace_all (CHR ''o'') (CHR ''0'') (replace_all (CHR ''O'') (CHR ''0'') s);
          n = replace_all (CHR ''|'') (CHR ''1'')
                (replace_all (CHR ''l'') (CHR ''1'') (replace_all (CHR ''I'') (CHR ''1'') n));
          n = replace_all (CHR ''s'') (CHR ''5'') (replace_all (CHR ''S'') (CHR ''5'') n);
          n = replace_all (CHR ''B'') (CHR ''8'') n;
          n = replace_all (CHR ''G'') (CHR ''6'') n
      in replace_all (CHR ''Z'') (CHR ''2'') n)"

definition fix_separators :: "string \<Rightarrow> string" where
  "fix_separators n =
     (if CHR '','' \<in> set n \<and> CHR ''.'' \<in> set n then
        (let lastComma = lastIndexOf n (CHR '','');
             lastDot = lastIndexOf n (CHR ''.'')
         in if lastComma > lastDot
            then replace_char_first (CHR '','') (CHR ''.'') (remove_all (lit (CHR ''.'')) n)
            else remove_all (lit (CHR '','')) n)
      else if CHR '','' \<in> set n then replace_char_first (CHR '','') (CHR ''.'') n
      else n)"

definition parsePrice :: "string \<Rightarrow> number" where
  "parsePrice priceStr =
     (if priceStr = [] then Fin 0
      else
        (let normalized = trim (remove_all is_currency priceStr);
             normalized = ocr_fix normalized;
             normalized = fix_separators normalized;
             normalized = remove_all (\<lambda>c. \<not> (is_digit c \<or> c = CHR ''.'')) normalized
         in or_zero (parseFloat normalized)))"

section \<open>The receipt parser\<close>

datatype error = TypeError | RangeError

record line_item =
  description :: string
  price :: number
  category :: string

record receipt_draft =
  merchant :: string
  date :: string
  total :: number
  items :: "line_item list"

definition prop_of :: "'a list \<Rightarrow> int \<Rightarrow> error + 'a" where
  \<comment> \<open>reading a property of \<open>xs[i]\<close>: a TypeError when \<open>xs[i]\<close> is undefined\<close>
  "prop_of xs i = (if 0 \<le> i \<and> i < int (length xs) then Inr (xs ! nat i) else Inl TypeError)"

subsection \<open>Merchant\<close>

definition establishments :: "(string \<times> atom list list) list" where
  "establishments =
     [(''MERCADONA'', [ci_spaced ''MERCADONA'', ci_spaced ''MERKADONA'']),
      (''CARREFOUR'', [ci_spaced ''CARREFOUR'', ci_spaced ''CFR'', ci_spaced ''CAREFUR'']),
      (''LIDL'', [ci_spaced ''LIDL'']),
      (''ALDI'', [ci_spaced ''ALDI'']),
      (''AHORRAMAS'', [ci_spaced ''AHORRAMAS'']),
      (''CONSUM'', [ci_spaced ''CONSUM'']),
      (''DIA'', [[WordB, one (ci (CHR ''D'')), one (ci (CHR ''I'')), Rep is_dot 0 (Some 1),
                  one (ci (CHR ''A'')), WordB]]),
      (''EL CORTE INGLES'',
         [ci_spaced ''CORTEINGLES'',
          [one (ci (CHR ''I'')), Rep (lit (CHR ''.'')) 0 (Some 1),
           one (ci (CHR ''N'')), Rep (lit (CHR ''.'')) 0 (Some 1),
           one (ci (CHR ''G'')), Rep (lit (CHR ''.'')) 0 (Some 1),
           one (ci (CHR ''L'')), Rep (lit (CHR ''.'')) 0 (Some 1),
           one (ci (CHR ''E'')), Rep (lit (CHR ''.'')) 0 (Some 1),
           one (ci (CHR ''S''))]]),
      (''HIPERCOR'', [ci_spaced ''HIPERCOR'']),
      (''EROSKI'', [ci_spaced ''EROSKI''])]"

definition known_merchant :: "string \<Rightarrow> string option" where
  \<comment> \<open>priority 1: the first entry of the table one of whose patterns matches\<close>
  "known_merchant fullText =
     map_option fst (find (\<lambda>(name, regexes). list_ex (\<lambda>rx. test rx fullText) regexes) establishments)"

definition address_words :: "atom list list" where
  "address_words = map ci_word [''CALLE'', ''AVENIDA'', ''C/'', ''TLF'', ''TEL:'', ''CIF'', ''NIF'', ''TICKET'']"

definition heading_line :: "string \<Rightarrow> bool" where
  "heading_line line =
     (length line > 3 \<and> \<not> test [Rep is_digit 2 None] line \<and> \<not> test_alt address_words line)"

definition detect_merchant :: "string list \<Rightarrow> string" where
  "detect_merchant lines =
     (let fullText = toUpperCase (join '' '' lines);
          merchant = (case known_merchant fullText of Some name \<Rightarrow> name | None \<Rightarrow> ''Desconocido'')
      in if merchant = ''Desconocido'' then
           (case find heading_line (map toUpperCase (take 12 lines)) of
              Some line \<Rightarrow> trim line
            | None \<Rightarrow> merchant)
         else merchant)"

subsection \<open>Date\<close>

definition is_date_sep :: "char \<Rightarrow> bool" where
  "is_date_sep c = (c \<in> set ''-/.'')"

definition dateRegex :: "atom list" where
  "dateRegex =
     [WordB, Rep is_digit 1 (Some 2), one is_date_sep, Rep is_digit 1 (Some 2), one is_date_sep,
      Rep is_digit 2 (Some 4), WordB]"

definition format_date :: "string \<Rightarrow> string \<Rightarrow> string \<Rightarrow> string" where
  "format_date day month year =
     (let (day, month) = (if digits_val month > 12 then (month, day) else (day, month));
          year = (if length year = 2 then ''20'' @ year else year);
          day = padStart2 day;
          month = padStart2 month
      in year @ ''-'' @ month @ ''-'' @ day)"

fun detect_date :: "string \<Rightarrow> string list \<Rightarrow> string" where
  \<comment> \<open>the first argument is the default, the current date\<close>
  "detect_date d [] = d"
| "detect_date d (line # rest) =
     (case exec dateRegex line of
        Some m \<Rightarrow> format_date (parts m ! 1) (parts m ! 3) (parts m ! 5)
      | None \<Rightarrow> detect_date d rest)"

subsection \<open>Items\<close>

definition is_price_sep :: "char \<Rightarrow> bool" where
  "is_price_sep c = (c \<in> set ''.,'')"

definition isLikelyItem :: "string \<Rightarrow> bool" where
  "isLikelyItem line =
     test [Bol, Rep is_digit 1 None, Rep is_dot 1 None, Rep is_digit 1 None, one is_price_sep,
           Rep is_digit 2 (Some 2)] line"

definition noiseKeywords :: "string list" where
  "noiseKeywords =
     [''IVA'', ''FACTURA'', ''TICKET'', ''TEL'' @ [CHR 0xC9] @ ''FONO'', ''GRACIAS'', ''C.I.F'',
      ''N.I.F'', ''P'' @ [CHR 0xC1] @ ''GINA'', ''CHANGE'', ''CAMBIO'', ''ENTREGADO'', ''EFECTIVO'']"

definition isNoise :: "string \<Rightarrow> bool" where
  "isNoise line =
     (let uppercase = toUpperCase line
      in if uppercase \<in> set noiseKeywords then True
         else if str_includes uppercase ''TOTAL'' \<and> \<not> test [one is_digit] line then True
         else False)"

definition priceRegex :: "atom list" where
  "priceRegex = [Rep is_digit 1 None, one is_price_sep, Rep is_digit 2 (Some 3)]"

definition summaryKeywords :: "string list" where
  "summaryKeywords =
     [''TOTAL'', ''SUBTOTAL'', ''IMPORTE'', ''TARJETA'', ''EFECTIVO'', ''PAGO'', ''PAGAR'',
      ''IVA'', ''I.V.A'', ''BASE'', ''IMPONIBLE'', ''CUOTA'', ''RECARGO'', ''DESCUENTO'',
      ''REDONDEO'', ''VALOR'', ''OPERACION'', ''TERMINAL'', ''AUTORIZ'', ''COPIA'', ''CLIENTE'']"

definition garbageRegex :: "atom list list" where
  "garbageRegex =
     [[Rep is_digit 2 (Some 4), one is_date_sep, Rep is_digit 2 (Some 2), one is_date_sep,
       Rep is_digit 2 (Some 4)],
      [Rep is_digit 9 None]]"

definition clean_description :: "string \<Rightarrow> string" where
  "clean_description d =
     (let d = replace_first [Bol, Rep is_digit 1 None, Rep is_space 1 None] d
      in trim (replace_first [Bol, Rep is_digit 1 None] d))"

definition select_price :: "rmatch list \<Rightarrow> error + number" where
  \<comment> \<open>the second-to-last price match when there are two or more, the only one otherwise\<close>
  "select_price allPriceMatches =
     (let n = int (length allPriceMatches);
          priceIdx = (if n \<ge> 2 then n - 2 else n - 1)
      in case prop_of allPriceMatches priceIdx of
           Inl e \<Rightarrow> Inl e
         | Inr pm \<Rightarrow> Inr (parsePrice (whole pm)))"

definition extract_item :: "string \<Rightarrow> error + (line_item \<times> number) option" where
  \<comment> \<open>one round of the item loop: the item pushed and the amount added to \<open>calculatedTotal\<close>\<close>
  "extract_item line =
     (if \<not> isLikelyItem line \<and> isNoise line then Inr None
      else
        (let allPriceMatches = matchAll priceRegex line
         in if length allPriceMatches > 0 then
              (case select_price allPriceMatches of
                 Inl e \<Rightarrow> Inl e
               | Inr price' \<Rightarrow>
                   (case prop_of allPriceMatches 0 of
                      Inl e \<Rightarrow> Inl e
                    | Inr m0 \<Rightarrow>
                        (let description = clean_description (trim (take (index m0) line));
                             upperLine = toUpperCase line;
                             isSummary = list_ex (\<lambda>k. str_includes upperLine k) summaryKeywords;
                             isGarbage = test_alt garbageRegex line
                         in if length description > 1 \<and> num_less (Fin 0) price' \<and> num_less price' (Fin 1000)
                               \<and> \<not> isSummary \<and> \<not> isGarbage
                            then
                              (case prop_of allPriceMatches (int (length allPriceMatches) - 1) of
                                 Inl e \<Rightarrow> Inl e
                               | Inr ml \<Rightarrow>
                                   Inr (Some (\<lparr>description = description, price = price',
                                                category = ''Otros''\<rparr>,
                                              parsePrice (whole ml))))
                            else Inr None)))
            else Inr None))"

fun extract_items ::
  "string list \<Rightarrow> line_item list \<times> number \<Rightarrow> error + (line_item list \<times> number)" where
  "extract_items [] st = Inr st"
| "extract_items (line # rest) (its, calculatedTotal) =
     (case extract_item line of
        Inl e \<Rightarrow> Inl e
      | Inr None \<Rightarrow> extract_items rest (its, calculatedTotal)
      | Inr (Some (it, amountForTotal)) \<Rightarrow>
          extract_items rest (its @ [it], num_add calculatedTotal amountForTotal))"

subsection \<open>Total\<close>

definition totalKeywords :: "string list" where
  "totalKeywords = [''TOTAL'', ''IMPORTE'', ''PAGAR'', ''A PAGAR'', ''LIQUIDO'']"

definition isTotalLine :: "string \<Rightarrow> bool" where
  "isTotalLine line =
     (list_ex (\<lambda>k. str_includes (toUpperCase line) k) totalKeywords
      \<and> \<not> str_includes (toUpperCase line) ''SUBTOTAL'')"

definition totalRegex :: "atom list" where
  "totalRegex = [Rep is_digit 1 None, one is_price_sep, Rep is_digit 2 (Some 2)]"

fun detect_total :: "string list \<Rightarrow> number \<Rightarrow> number" where
  \<comment> \<open>the second argument is \<open>detectedTotal\<close> so far\<close>
  "detect_total [] detectedTotal = detectedTotal"
| "detect_total (line # rest) detectedTotal =
     detect_total rest
       (if isTotalLine line then
          (case exec totalRegex line of
             Some m \<Rightarrow> parsePrice (whole m)
           | None \<Rightarrow> detectedTotal)
        else detectedTotal)"

definition reconcile :: "number \<Rightarrow> number \<Rightarrow> number" where
  "reconcile detectedTotal calculatedTotal =
     (if detectedTotal = Fin 0
         \<or> (num_less (Fin 0) calculatedTotal
            \<and> num_less (Fin 30) (num_abs (num_sub detectedTotal calculatedTotal)))
      then num_max detectedTotal (toFixed2 calculatedTotal)
      else detectedTotal)"

definition final_sanity :: "int \<Rightarrow> number \<Rightarrow> line_item list \<Rightarrow> error + number" where
  \<comment> \<open>\<open>Math.max(...prices)\<close> spreads the prices into the arguments of one call, and an engine
      throws a RangeError on a call with more arguments than it can take; ECMAScript leaves
      this limit, \<open>maxArguments\<close>, to the engine\<close>
  "final_sanity maxArguments t its =
     (if t = Fin 0 \<and> length its > 0 then
        (if maxArguments < int (length its) then Inl RangeError
         else Inr (math_max (map price its)))
      else Inr t)"

subsection \<open>parse\<close>

definition lines_of :: "string \<Rightarrow> string list" where
  "lines_of rawText = filter (\<lambda>l. length l > 0) (map trim (split_on (CHR 0x0A) rawText))"

definition parse :: "int \<Rightarrow> string \<Rightarrow> string \<Rightarrow> error + receipt_draft" where
  \<comment> \<open>the first argument is the engine's limit on the arguments of a call, the second the
      current date, \<open>new Date().toISOString().split('T')[0]\<close>\<close>
  "parse maxArguments today rawText =
     (let lines = lines_of rawText
      in case extract_items lines ([], Fin 0) of
           Inl e \<Rightarrow> Inl e
         | Inr (its, calculatedTotal) \<Rightarrow>
             (case final_sanity maxArguments
                     (reconcile (detect_total lines (Fin 0)) calculatedTotal) its of
                Inl e \<Rightarrow> Inl e
              | Inr t \<Rightarrow>
                  Inr \<lparr>merchant = detect_merchant lines,
                       date = detect_date today lines,
                       total = t,
                       items = its\<rparr>))"

subsection \<open>Notions used in the statements\<close>

definition nonneg :: "number \<Rightarrow> bool" where
  "nonneg x = (case x of Fin v \<Rightarrow> 0 \<le> v | PInf \<Rightarrow> True | NInf \<Rightarrow> False | NaN \<Rightarrow> False)"

fun spaced :: "string \<Rightarrow> string list \<Rightarrow> string" where
  \<comment> \<open>the letters of a word with the strings \<open>gs\<close> put between them, one after the other\<close>
  "spaced [] gs = []"
| "spaced [c] gs = [c]"
| "spaced (c # d # ds) [] = c # spaced (d # ds) []"
| "spaced (c # d # ds) (g # gs) = c # g @ spaced (d # ds) gs"

subsection \<open>The date syntax of the specification\<close>

definition spec_date_syntax :: "string \<Rightarrow> bool" where
  \<comment> \<open>the specification's \<open>YYYY-MM-DD\<close>: a 4-digit year, a 2-digit month, a 2-digit day\<close>
  "spec_date_syntax s =
     (length s = 10 \<and> list_all is_digit (take 4 s) \<and> s ! 4 = CHR ''-''
      \<and> list_all is_digit (take 2 (drop 5 s)) \<and> s ! 7 = CHR ''-''
      \<and> list_all is_digit (drop 8 s))"

section \<open>Basic facts\<close>

lemma pow2_pos: "0 < pow2 e"
  by (simp add: pow2_def)

lemma round_half_even_nonneg: "0 \<le> y \<Longrightarrow> 0 \<le> round_half_even y"
  by (auto simp: round_half_even_def Let_def)

lemma to_double_nonneg: "0 \<le> x \<Longrightarrow> nonneg (to_double x)"
proof -
  assume x: "0 \<le> x"
  have "0 \<le> round_half_even (\<bar>x\<bar> / pow2 e)" for e
    by (rule round_half_even_nonneg) (simp add: pow2_pos less_imp_le)
  then have "0 \<le> (of_int (round_half_even (\<bar>x\<bar> / pow2 e)) :: rat) * pow2 e" for e
    by (simp add: pow2_pos less_imp_le)
  with x show ?thesis
    by (auto simp: to_double_def Let_def nonneg_def)
qed

lemma to_double_not_NaN: "to_double x \<noteq> NaN"
  by (simp add: to_double_def Let_def)

lemma or_zero_to_double: "or_zero (to_double x) = to_double x"
  by (simp add: or_zero_def to_double_not_NaN)

lemma foldl_digits_nonneg: "0 \<le> a \<Longrightarrow> 0 \<le> foldl (\<lambda>a c. 10 * a + int (digit_val c)) a ds"
  by (induction ds arbitrary: a) auto

lemma digits_val_nonneg: "0 \<le> digits_val ds"
  by (simp add: digits_val_def foldl_digits_nonneg)

lemma parseFloat_nonneg: "parseFloat s = NaN \<or> nonneg (parseFloat s)"
  by (auto simp: parseFloat_def Let_def digits_val_nonneg intro!: to_double_nonneg
      split: list.splits)

lemma or_zero_nonneg: "x = NaN \<or> nonneg x \<Longrightarrow> nonneg (or_zero x)"
  by (auto simp: or_zero_def nonneg_def)

lemma parsePrice_nonneg: "nonneg (parsePrice s)"
proof (cases "s = []")
  case True
  then show ?thesis by (simp add: parsePrice_def nonneg_def)
next
  case False
  then show ?thesis
    by (simp add: parsePrice_def Let_def or_zero_nonneg [OF parseFloat_nonneg])
qed

lemma num_add_nonneg: "nonneg a \<Longrightarrow> nonneg b \<Longrightarrow> nonneg (num_add a b)"
  by (cases a; cases b) (auto simp: nonneg_def [of "Fin _"] nonneg_def [of PInf]
      nonneg_def [of NInf] nonneg_def [of NaN] intro: to_double_nonneg)

lemma detect_total_nonneg: "nonneg d \<Longrightarrow> nonneg (detect_total ls d)"
  by (induction ls arbitrary: d) (auto simp: parsePrice_nonneg split: option.splits)

lemma nat_int_pred: "nat (int n - 1) = n - Suc 0"
  by arith

lemma select_price_ok: "ms \<noteq> [] \<Longrightarrow> \<exists>p. select_price ms = Inr p"
  by (cases ms) (auto simp: select_price_def prop_of_def Let_def)

lemma extract_item_ok: "\<exists>r. extract_item line = Inr r"
proof (cases "matchAll priceRegex line")
  case Nil
  then show ?thesis by (simp add: extract_item_def)
next
  case (Cons m ms)
  then obtain p where "select_price (matchAll priceRegex line) = Inr p"
    using select_price_ok [of "m # ms"] by auto
  with Cons show ?thesis
    by (simp add: extract_item_def prop_of_def Let_def)
qed

lemma extract_items_ok: "\<exists>r. extract_items ls st = Inr r"
proof (induction ls arbitrary: st)
  case Nil
  then show ?case by simp
next
  case (Cons l ls)
  obtain r where r: "extract_item l = Inr r" using extract_item_ok by blast
  obtain its c where st: "st = (its, c)" by (cases st)
  show ?case using Cons.IH r st by (cases r) auto
qed

lemma extract_item_accepts:
  assumes "extract_item line = Inr (Some (it, amt))"
  shows "num_less (Fin 0) (price it) \<and> num_less (price it) (Fin 1000)
         \<and> length (description it) > 1
         \<and> select_price (matchAll priceRegex line) = Inr (price it)
         \<and> matchAll priceRegex line \<noteq> []
         \<and> amt = parsePrice (whole (last (matchAll priceRegex line)))"
  using assms
  by (auto simp: extract_item_def prop_of_def Let_def last_conv_nth nat_int_pred
      split: if_splits sum.splits)

lemma between_Fin:
  "num_less (Fin 0) p \<and> num_less p (Fin 1000) \<longleftrightarrow> (\<exists>v. p = Fin v \<and> 0 < v \<and> v < 1000)"
  by (cases p) auto

lemma extract_items_inv:
  assumes "extract_items ls (its0, c0) = Inr (its, c)"
    and "\<And>l it amt. extract_item l = Inr (Some (it, amt)) \<Longrightarrow> P it"
    and "list_all P its0"
  shows "list_all P its"
  using assms(1,3)
proof (induction ls arbitrary: its0 c0)
  case Nil
  then show ?case by simp
next
  case (Cons l ls)
  obtain r where r: "extract_item l = Inr r" using extract_item_ok by blast
  show ?case
  proof (cases r)
    case None
    with Cons r show ?thesis by simp
  next
    case (Some x)
    obtain it amt where x: "x = (it, amt)" by (cases x)
    have "P it" using assms(2) r Some x by blast
    with Cons r Some x show ?thesis by simp
  qed
qed

lemma extract_items_nonneg:
  assumes "extract_items ls (its0, c0) = Inr (its, c)" and "nonneg c0"
  shows "nonneg c"
  using assms
proof (induction ls arbitrary: its0 c0)
  case Nil
  then show ?case by simp
next
  case (Cons l ls)
  obtain r where r: "extract_item l = Inr r" using extract_item_ok by blast
  show ?case
  proof (cases r)
    case None
    with Cons r show ?thesis by simp
  next
    case (Some x)
    obtain it amt where x: "x = (it, amt)" by (cases x)
    then have "amt = parsePrice (whole (last (matchAll priceRegex l)))"
      using extract_item_accepts r Some by blast
    then have "nonneg (num_add c0 amt)"
      using Cons.prems(2) by (simp add: num_add_nonneg parsePrice_nonneg)
    with Cons r Some x show ?thesis by simp
  qed
qed

section \<open>The matcher finds exactly the valid matches\<close>

lemma le_takeWhile_iff:
  "n \<le> length (takeWhile c s) \<longleftrightarrow> n \<le> length s \<and> list_all c (take n s)"
proof (induction s arbitrary: n)
  case Nil
  then show ?case by simp
next
  case (Cons x xs)
  then show ?case by (cases n) auto
qed

lemma candidates_iff:
  "n \<in> set (candidates lo (run_length c hi s)) \<longleftrightarrow>
     lo \<le> n \<and> (case hi of None \<Rightarrow> True | Some h \<Rightarrow> n \<le> h) \<and> n \<le> length s
     \<and> list_all c (take n s)"
  using le_takeWhile_iff [of n c s]
  by (auto simp: candidates_def run_length_def Let_def split: option.splits)

lemma try_counts_Some: "try_counts f ns = Some r \<Longrightarrow> \<exists>n \<in> set ns. f n = Some r"
  by (induction ns) (auto split: option.splits)

lemma try_counts_None: "try_counts f ns = None \<Longrightarrow> n \<in> set ns \<Longrightarrow> f n = None"
  by (induction ns) (auto split: option.splits)

lemma match_here_sound: "match_here p prev s = Some ns \<Longrightarrow> valid p prev s ns"
proof (induction p arbitrary: prev s ns)
  case Nil
  then show ?case by simp
next
  case (Cons a as)
  show ?case
  proof (cases a)
    case (Rep c lo hi)
    from Cons.prems Rep obtain n where
      n: "n \<in> set (candidates lo (run_length c hi s))"
      and m: "map_option ((#) n) (match_here as (prev_after prev s n) (drop n s)) = Some ns"
      by (auto dest!: try_counts_Some)
    from m obtain ns' where ns': "match_here as (prev_after prev s n) (drop n s) = Some ns'"
      "ns = n # ns'" by auto
    from Cons.IH [OF ns'(1)] n ns'(2) Rep show ?thesis
      by (simp add: candidates_iff)
  next
    case WordB
    with Cons show ?thesis by (auto split: if_splits)
  next
    case Bol
    with Cons show ?thesis by (auto split: if_splits)
  qed
qed

lemma match_here_complete: "valid p prev s ns \<Longrightarrow> match_here p prev s \<noteq> None"
proof (induction p arbitrary: prev s ns)
  case Nil
  then show ?case by simp
next
  case (Cons a as)
  from Cons.prems obtain n ns' where ns: "ns = n # ns'" by (cases ns) auto
  show ?case
  proof (cases a)
    case (Rep c lo hi)
    from Cons.prems ns Rep have n: "n \<in> set (candidates lo (run_length c hi s))"
      and v: "valid as (prev_after prev s n) (drop n s) ns'"
      by (simp_all add: candidates_iff)
    from Cons.IH [OF v] have
      "map_option ((#) n) (match_here as (prev_after prev s n) (drop n s)) \<noteq> None" by simp
    with try_counts_None [OF _ n] Rep show ?thesis by fastforce
  next
    case WordB
    with Cons ns show ?thesis by auto
  next
    case Bol
    with Cons ns show ?thesis by auto
  qed
qed

lemma exec_from_sound:
  "exec_from p i prev s = Some m \<Longrightarrow>
     \<exists>prev' s' ns j. match_here p prev' s' = Some ns \<and> m = mk_match j ns s'"
proof (induction s arbitrary: i prev)
  case Nil
  then show ?case by (auto split: option.splits)
next
  case (Cons c cs)
  then show ?case by (auto split: option.splits)
qed

lemma matchAll_from_sound:
  "list_all (\<lambda>m. \<exists>prev' s' ns j. match_here p prev' s' = Some ns \<and> m = mk_match j ns s')
     (matchAll_from p k i prev s)"
proof (induction s arbitrary: k i prev)
  case Nil
  show ?case by (auto split: option.splits)
next
  case (Cons c cs)
  show ?case
  proof (cases "match_here p prev (c # cs)")
    case None
    then show ?thesis using Cons.IH by simp
  next
    case (Some ns)
    then have "\<exists>prev' s' ns' j. match_here p prev' s' = Some ns' \<and>
                 mk_match i ns (c # cs) = mk_match j ns' s'" by blast
    then show ?thesis using Cons.IH Some by simp
  qed
qed

lemma matchAll_sound:
  assumes "m \<in> set (matchAll p s)"
  shows "\<exists>prev' s' ns j. match_here p prev' s' = Some ns \<and> m = mk_match j ns s'"
  using matchAll_from_sound [of p 0 0 None s] assms
  unfolding matchAll_def list_all_iff by blast

lemma exec_from_complete:
  "match_here p (if pre = [] then prev else Some (last pre)) s \<noteq> None \<Longrightarrow>
     exec_from p i prev (pre @ s) \<noteq> None"
proof (induction pre arbitrary: i prev)
  case Nil
  then show ?case by (cases s) (auto split: option.splits)
next
  case (Cons c cs)
  then show ?case by (auto split: option.splits if_splits)
qed

lemma spaced_valid:
  "list_all (list_all is_space) gs \<Longrightarrow> \<exists>ns. valid (ci_spaced w) prev (spaced w gs @ post) ns"
proof (induction w gs arbitrary: prev rule: spaced.induct)
  case (1 gs)
  show ?case by simp
next
  case (2 c gs)
  have "valid (ci_spaced [c]) prev (spaced [c] gs @ post) [1]"
    by (simp add: ci_def)
  then show ?case by blast
next
  case (3 c d ds)
  from 3 obtain ns where
    "valid (ci_spaced (d # ds)) (prev_after (prev_after prev (c # spaced (d # ds) [] @ post) 1)
        (spaced (d # ds) [] @ post) 0) (spaced (d # ds) [] @ post) ns"
    by blast
  then have "valid (ci_spaced (c # d # ds)) prev (spaced (c # d # ds) [] @ post) (1 # 0 # ns)"
    by (simp add: ci_def)
  then show ?case by blast
next
  case (4 c d ds g gs)
  from 4 obtain ns where
    "valid (ci_spaced (d # ds))
       (prev_after (prev_after prev (c # g @ spaced (d # ds) gs @ post) 1)
          (g @ spaced (d # ds) gs @ post) (length g))
       (spaced (d # ds) gs @ post) ns"
    by auto
  moreover have "list_all is_space g" using 4 by simp
  ultimately have
    "valid (ci_spaced (c # d # ds)) prev (spaced (c # d # ds) (g # gs) @ post) (1 # length g # ns)"
    by (simp add: ci_def)
  then show ?case by blast
qed

section \<open>Price tokens\<close>

lemma valid_Rep_iff:
  "valid (Rep c lo hi # as) prev s ns \<longleftrightarrow>
     (\<exists>n ns'. ns = n # ns' \<and> lo \<le> n \<and> (case hi of None \<Rightarrow> True | Some h \<Rightarrow> n \<le> h)
        \<and> n \<le> length s \<and> list_all c (take n s)
        \<and> valid as (prev_after prev s n) (drop n s) ns')"
  by (cases ns) auto

lemma digit_classes:
  assumes "is_digit c"
  shows "\<not> is_currency c" "\<not> is_space c" "c \<noteq> CHR '',''" "c \<noteq> CHR ''.''"
    "c \<notin> set ''OoIl|SsBGZ''"
  using assms by (auto simp: is_digit_def is_currency_def is_space_def)

lemma sep_classes:
  assumes "is_price_sep c"
  shows "\<not> is_currency c" "\<not> is_space c" "\<not> is_digit c" "c \<notin> set ''OoIl|SsBGZ''"
  using assms by (auto simp: is_digit_def is_currency_def is_space_def is_price_sep_def)

lemma trim_id:
  assumes "t \<noteq> []" "\<not> is_space (hd t)" "\<not> is_space (last t)"
  shows "trim t = t"
proof -
  have 1: "dropWhile is_space t = t"
    using assms(2) by (simp add: dropWhile_eq_self_iff)
  have 2: "dropWhile is_space (rev t) = rev t"
    using assms(1,3) by (simp add: dropWhile_eq_self_iff hd_rev)
  show ?thesis by (simp add: trim_def 1 2)
qed

lemma replace_all_id: "a \<notin> set s \<Longrightarrow> replace_all a b s = s"
  by (induction s) (auto simp: replace_all_def)

lemma ocr_fix_id:
  assumes "set s \<inter> set ''OoIl|SsBGZ'' = {}"
  shows "ocr_fix s = s"
proof -
  have "\<And>a. a \<in> set ''OoIl|SsBGZ'' \<Longrightarrow> replace_all a b s = s" for b
    using assms by (intro replace_all_id) blast
  then show ?thesis by (simp add: ocr_fix_def Let_def)
qed

lemma remove_all_id: "(\<And>c. c \<in> set s \<Longrightarrow> \<not> cls c) \<Longrightarrow> remove_all cls s = s"
  by (simp add: remove_all_def filter_id_conv)

lemma replace_char_first_append:
  "a \<notin> set ds \<Longrightarrow> replace_char_first a b (ds @ a # fs) = ds @ b # fs"
  by (induction ds) auto

lemma parseFloat_decimal:
  assumes "ds \<noteq> []" "list_all is_digit ds" "list_all is_digit fs"
  shows "parseFloat (ds @ CHR ''.'' # fs)
           = to_double (of_int (digits_val ds) + of_int (digits_val fs) / 10 ^ length fs)"
proof -
  have nd: "\<not> is_digit (CHR ''.'')" by (simp add: is_digit_def)
  have 1: "takeWhile is_digit (ds @ CHR ''.'' # fs) = ds"
    using assms(2) nd by (simp add: takeWhile_append2 list_all_iff)
  have 2: "takeWhile is_digit fs = fs"
    using assms(3) by (simp add: takeWhile_eq_all_conv list_all_iff)
  show ?thesis
    unfolding parseFloat_def 1 Let_def using assms(1) by (simp add: 2)
qed

lemma parsePrice_token:
  assumes "ds \<noteq> []" "list_all is_digit ds" "is_price_sep sep" "list_all is_digit fs" "fs \<noteq> []"
  shows "trim (remove_all is_currency (ds @ [sep] @ fs)) = ds @ [sep] @ fs"
    and "ocr_fix (ds @ [sep] @ fs) = ds @ [sep] @ fs"
    and "\<not> (CHR '','' \<in> set (ds @ [sep] @ fs) \<and> CHR ''.'' \<in> set (ds @ [sep] @ fs))"
    and "parsePrice (ds @ [sep] @ fs)
           = to_double (of_int (digits_val ds) + of_int (digits_val fs) / 10 ^ length fs)"
proof -
  let ?t = "ds @ [sep] @ fs"
  have dig: "\<And>c. c \<in> set ds \<union> set fs \<Longrightarrow> is_digit c"
    using assms(2,4) by (auto simp: list_all_iff)
  have cur: "remove_all is_currency ?t = ?t"
    by (rule remove_all_id) (use dig digit_classes(1) sep_classes(1) [OF assms(3)] in auto)
  have "hd ?t = hd ds" "last ?t = last fs" using assms(1,5) by simp_all
  moreover have "is_digit (hd ds)" "is_digit (last fs)" using dig assms(1,5) by simp_all
  ultimately have tr: "trim ?t = ?t"
    by (intro trim_id) (simp_all add: digit_classes(2))
  show 1: "trim (remove_all is_currency ?t) = ?t" by (simp only: cur tr)
  have "set ?t \<inter> set ''OoIl|SsBGZ'' = {}"
    using dig digit_classes(5) sep_classes(4) [OF assms(3)] by fastforce
  then show 2: "ocr_fix ?t = ?t" by (rule ocr_fix_id)
  have nc: "CHR '','' \<notin> set ds \<union> set fs" "CHR ''.'' \<notin> set ds \<union> set fs"
    using dig digit_classes(3,4) by blast+
  have sep: "sep = CHR '','' \<or> sep = CHR ''.''"
    using assms(3) by (auto simp: is_price_sep_def)
  show 3: "\<not> (CHR '','' \<in> set ?t \<and> CHR ''.'' \<in> set ?t)"
    using nc sep by auto
  have fixsep: "fix_separators ?t = ds @ CHR ''.'' # fs"
    using sep nc by (auto simp: fix_separators_def replace_char_first_append)
  have clean: "remove_all (\<lambda>c. \<not> (is_digit c \<or> c = CHR ''.'')) (ds @ CHR ''.'' # fs) = ds @ CHR ''.'' # fs"
    by (rule remove_all_id) (use dig in auto)
  have ne: "?t \<noteq> []" by simp
  show "parsePrice ?t = to_double (of_int (digits_val ds) + of_int (digits_val fs) / 10 ^ length fs)"
    by (simp only: parsePrice_def Let_def cur tr 2 fixsep clean ne if_False
        parseFloat_decimal [OF assms(1,2,4)] or_zero_to_double)
qed

lemma token_shape:
  assumes "match_here [Rep is_digit 1 None, one is_price_sep, Rep is_digit 2 (Some h)] prev s = Some ns"
  shows "\<exists>ds sep fs. take (sum_list ns) s = ds @ [sep] @ fs \<and> ds \<noteq> [] \<and> list_all is_digit ds
           \<and> is_price_sep sep \<and> list_all is_digit fs \<and> 2 \<le> length fs \<and> length fs \<le> h"
proof -
  from match_here_sound [OF assms] obtain a c where
    ns: "ns = [a, 1, c]" and a: "1 \<le> a" "a \<le> length s" "list_all is_digit (take a s)"
    and b: "1 \<le> length (drop a s)" "list_all is_price_sep (take 1 (drop a s))"
    and c: "2 \<le> c" "c \<le> h" "c \<le> length (drop 1 (drop a s))"
      "list_all is_digit (take c (drop 1 (drop a s)))"
    by (auto simp: valid_Rep_iff)
  from b obtain x xs where x: "drop a s = x # xs" by (cases "drop a s") auto
  have "take (a + (1 + c)) s = take a s @ take (1 + c) (drop a s)"
    by (rule take_add)
  also have "\<dots> = take a s @ [x] @ take c xs" by (simp add: x)
  finally have 1: "take (sum_list ns) s = take a s @ [x] @ take c xs" by (simp add: ns)
  have 2: "take a s \<noteq> []" using a by auto
  have 3: "is_price_sep x" using b x by simp
  have 4: "list_all is_digit (take c xs)" "length (take c xs) = c" using c x by simp_all
  have "take (sum_list ns) s = take a s @ [x] @ take c xs \<and> take a s \<noteq> [] \<and>
        list_all is_digit (take a s) \<and> is_price_sep x \<and> list_all is_digit (take c xs) \<and>
        2 \<le> length (take c xs) \<and> length (take c xs) \<le> h"
    using 1 2 3 4 a c by simp
  then show ?thesis by blast
qed

lemma parsePrice_examples:
  "parsePrice ''1,25'' = Fin (5 / 4)" "parsePrice ''1.200,50'' = Fin (2401 / 2)"
  "parsePrice ''1,200.50'' = Fin (2401 / 2)" "parsePrice ''12,5O'' = Fin (25 / 2)"
  "parsePrice ''abc'' = Fin 0" "parsePrice [] = Fin 0"
  by code_simp+

section \<open>Merchant and total\<close>

lemma join_contains: "x \<in> set ls \<Longrightarrow> \<exists>pre post. join sep ls = pre @ x @ post"
proof (induction sep ls rule: join.induct)
  case (1 sep)
  then show ?case by simp
next
  case (2 sep y)
  then have "join sep [y] = [] @ x @ []" by simp
  then show ?case by blast
next
  case (3 sep y z zs)
  show ?case
  proof (cases "x = y")
    case True
    then have "join sep (y # z # zs) = [] @ x @ (sep @ join sep (z # zs))" by simp
    then show ?thesis by blast
  next
    case False
    with 3 obtain pre post where "join sep (z # zs) = pre @ x @ post" by auto
    then have "join sep (y # z # zs) = (y @ sep @ pre) @ x @ post" by simp
    then show ?thesis by blast
  qed
qed

lemma test_contains:
  assumes "\<And>prev. match_here p prev (w @ post) \<noteq> None"
  shows "test p (pre @ w @ post)"
  unfolding test_def exec_def using assms by (intro exec_from_complete) simp

lemma find_first:
  assumes "\<not> list_ex P before" "P x"
  shows "find P (before @ x # rest) = Some x"
  using assms by (induction before) auto

lemma establishments_names: "(n, r) \<in> set establishments \<Longrightarrow> n \<noteq> ''Desconocido''"
  by (auto simp: establishments_def)

lemma detect_merchant_known:
  "known_merchant (toUpperCase (join '' '' lines)) = Some n \<Longrightarrow> n \<noteq> ''Desconocido'' \<Longrightarrow>
     detect_merchant lines = n"
  by (simp add: detect_merchant_def Let_def)

lemma mercadona_first: "\<exists>rest. establishments = (''MERCADONA'', [ci_spaced ''MERCADONA'', ci_spaced ''MERKADONA'']) # rest"
  by (simp add: establishments_def)

lemma toUpperCase_append: "toUpperCase (a @ b) = toUpperCase a @ toUpperCase b"
  by (simp add: toUpperCase_def)

lemma spaced_test:
  assumes "l \<in> set lines" "toUpperCase l = spaced w gs" "list_all (list_all is_space) gs"
  shows "test (ci_spaced w) (toUpperCase (join '' '' lines))"
proof -
  from assms(1) obtain pre post where "join '' '' lines = pre @ l @ post"
    using join_contains by blast
  then have full: "toUpperCase (join '' '' lines)
      = toUpperCase pre @ spaced w gs @ toUpperCase post"
    using assms(2) by (simp add: toUpperCase_append)
  have "\<And>prev. match_here (ci_spaced w) prev (spaced w gs @ toUpperCase post) \<noteq> None"
    using spaced_valid [OF assms(3)] match_here_complete by blast
  then show ?thesis
    unfolding full by (rule test_contains)
qed

lemma toFixed2_zero: "toFixed2 (Fin 0) = Fin 0"
  by code_simp

lemma reconcile_max:
  assumes "nonneg d" "nonneg c"
    and "d = Fin 0 \<or> num_less (Fin 30) (num_abs (num_sub d c))"
  shows "reconcile d c = num_max d (toFixed2 c)"
proof (cases "d = Fin 0 \<or> num_less (Fin 0) c")
  case True
  with assms(3) show ?thesis by (auto simp: reconcile_def)
next
  case False
  with assms(2) have c: "c = Fin 0"
    by (cases c) (auto simp: nonneg_def)
  from assms(1) have "num_max d (Fin 0) = d"
    by (cases d) (auto simp: nonneg_def)
  with False c show ?thesis
    by (simp add: reconcile_def toFixed2_zero)
qed

lemma known_merchant_first:
  assumes "establishments = before @ (name, regexes) # rest"
    and "\<not> list_ex (\<lambda>(n, rxs). list_ex (\<lambda>rx. test rx fullText) rxs) before"
    and "list_ex (\<lambda>rx. test rx fullText) regexes"
  shows "known_merchant fullText = Some name"
  unfolding known_merchant_def assms(1)
  using find_first [of "\<lambda>(n, rxs). list_ex (\<lambda>rx. test rx fullText) rxs" before
      "(name, regexes)" rest] assms(2,3)
  by simp

lemma token_facts:
  assumes "match_here [Rep is_digit 1 None, one is_price_sep, Rep is_digit 2 (Some h)] prev s = Some ns"
    and "t = take (sum_list ns) s"
  shows "\<exists>ds sep fs. t = ds @ [sep] @ fs \<and> ds \<noteq> [] \<and> list_all is_digit ds
           \<and> is_price_sep sep \<and> list_all is_digit fs \<and> 2 \<le> length fs \<and> length fs \<le> h
           \<and> trim (remove_all is_currency t) = t \<and> ocr_fix t = t
           \<and> \<not> (CHR '','' \<in> set t \<and> CHR ''.'' \<in> set t)
           \<and> parsePrice t = to_double (of_int (digits_val ds) + of_int (digits_val fs) / 10 ^ length fs)"
proof -
  from token_shape [OF assms(1)] assms(2) obtain ds sep fs where
    t: "t = ds @ [sep] @ fs" and sh: "ds \<noteq> []" "list_all is_digit ds" "is_price_sep sep"
      "list_all is_digit fs" "2 \<le> length fs" "length fs \<le> h"
    by auto
  from sh(5) have ne: "fs \<noteq> []" by auto
  note pt = parsePrice_token [OF sh(1,2,3,4) ne]
  have "t = ds @ [sep] @ fs \<and> ds \<noteq> [] \<and> list_all is_digit ds
           \<and> is_price_sep sep \<and> list_all is_digit fs \<and> 2 \<le> length fs \<and> length fs \<le> h
           \<and> trim (remove_all is_currency t) = t \<and> ocr_fix t = t
           \<and> \<not> (CHR '','' \<in> set t \<and> CHR ''.'' \<in> set t)
           \<and> parsePrice t = to_double (of_int (digits_val ds) + of_int (digits_val fs) / 10 ^ length fs)"
    unfolding t using sh pt by blast
  then show ?thesis by blast
qed

section \<open>Many items\<close>

lemma split_on_append: "d \<notin> set l \<Longrightarrow> split_on d (l @ d # rest) = l # split_on d rest"
  by (induction l) (auto split: list.splits)

lemma split_on_replicate:
  "d \<notin> set l \<Longrightarrow> split_on d (concat (replicate n (l @ [d]))) = replicate n l @ [[]]"
  by (induction n) (simp_all add: split_on_append)

lemma lines_of_replicate:
  assumes "CHR 0x0A \<notin> set l" "trim l = l" "l \<noteq> []"
  shows "lines_of (concat (replicate n (l @ [CHR 0x0A]))) = replicate n l"
  using assms by (simp add: lines_of_def split_on_replicate trim_def)

lemma extract_items_replicate:
  assumes "extract_item l = Inr (Some (it, Fin 0))"
  shows "extract_items (replicate n l) (its, Fin 0) = Inr (its @ replicate n it, Fin 0)"
proof (induction n arbitrary: its)
  case 0
  show ?case by simp
next
  case (Suc n)
  have "num_add (Fin 0) (Fin 0) = Fin 0" by (simp add: to_double_def)
  with assms Suc [of "its @ [it]"] show ?case
    by (simp add: replicate_app_Cons_same)
qed

lemma detect_total_replicate: "\<not> isTotalLine l \<Longrightarrow> detect_total (replicate n l) d = d"
  by (induction n) simp_all

lemma parse_no_TypeError: "parse maxArguments today rawText \<noteq> Inl TypeError"
proof -
  obtain r where "extract_items (lines_of rawText) ([], Fin 0) = Inr r"
    using extract_items_ok by blast
  then show ?thesis
    by (cases r) (auto simp: parse_def Let_def final_sanity_def split: sum.splits)
qed

lemma parse_empty:
  "parse maxArguments today [] =
     Inr \<lparr>merchant = ''Desconocido'', date = today, total = Fin 0, items = []\<rparr>"
  by code_simp

lemma double_rounding_examples:
  "toFixed2 (to_double (1005 / 1000)) = Fin 1"
  "num_less (Fin 30) (num_abs (num_sub (to_double (202 / 100)) (to_double (3202 / 100))))"
  "to_double (1005 / 1000) = Fin (1131529406376837 / 1125899906842624)"
  by code_simp+

section \<open>The date syntax\<close>

lemma valid_WordB_iff:
  "valid (WordB # as) prev s ns \<longleftrightarrow>
     (\<exists>ns'. ns = 0 # ns' \<and> at_boundary prev s \<and> valid as prev s ns')"
  by (cases ns) auto

lemma date_groups:
  assumes "exec dateRegex line = Some m"
  shows "list_all is_digit (parts m ! 1) \<and> length (parts m ! 1) \<in> {1, 2}
         \<and> list_all is_digit (parts m ! 3) \<and> length (parts m ! 3) \<in> {1, 2}
         \<and> list_all is_digit (parts m ! 5) \<and> length (parts m ! 5) \<in> {2, 3, 4}"
proof -
  from assms obtain prev s ns j where
    mh: "match_here dateRegex prev s = Some ns" and m: "m = mk_match j ns s"
    unfolding exec_def using exec_from_sound by blast
  from match_here_sound [OF mh] obtain a b c where
    ns: "ns = [0, a, 1, b, 1, c, 0]"
    and a: "1 \<le> a" "a \<le> 2" "a \<le> length s" "list_all is_digit (take a s)"
    and b: "1 \<le> b" "b \<le> 2" "b \<le> length (drop 1 (drop a s))"
      "list_all is_digit (take b (drop 1 (drop a s)))"
    and c: "2 \<le> c" "c \<le> 4" "c \<le> length (drop 1 (drop b (drop 1 (drop a s))))"
      "list_all is_digit (take c (drop 1 (drop b (drop 1 (drop a s)))))"
    by (auto simp: dateRegex_def valid_Rep_iff valid_WordB_iff)
  have p: "parts m ! 1 = take a s" "parts m ! 3 = take b (drop 1 (drop a s))"
    "parts m ! 5 = take c (drop 1 (drop b (drop 1 (drop a s))))"
    by (simp_all add: m ns mk_match_def numeral_eq_Suc)
  have "length (take a s) = a" "length (take b (drop 1 (drop a s))) = b"
    "length (take c (drop 1 (drop b (drop 1 (drop a s))))) = c"
    using a(3) b(3) c(3) by simp_all
  moreover have "a \<in> {1, 2}" "b \<in> {1, 2}" "c \<in> {2, 3, 4}"
    using a(1,2) b(1,2) c(1,2) by auto
  ultimately show ?thesis
    unfolding p using a(4) b(4) c(4) by simp
qed

lemma padStart2_digits:
  assumes "list_all is_digit x" "length x \<in> {1, 2}"
  shows "list_all is_digit (padStart2 x) \<and> length (padStart2 x) = 2"
  using assms by (auto simp: padStart2_def is_digit_def)

lemma spec_date_syntax_build:
  assumes "list_all is_digit y" "length y = 4" "list_all is_digit mo" "length mo = 2"
    "list_all is_digit d" "length d = 2"
  shows "spec_date_syntax (y @ ''-'' @ mo @ ''-'' @ d)"
  using assms by (simp add: spec_date_syntax_def nth_append)

lemma format_date_syntax:
  assumes "list_all is_digit d" "length d \<in> {1, 2}" "list_all is_digit mo" "length mo \<in> {1, 2}"
    "list_all is_digit y" "length y = 2 \<or> length y = 4"
  shows "spec_date_syntax (format_date d mo y)"
proof -
  have y: "list_all is_digit (if length y = 2 then ''20'' @ y else y)"
    "length (if length y = 2 then ''20'' @ y else y) = 4"
    using assms(5,6) by (auto simp: is_digit_def)
  note pd = padStart2_digits [OF assms(1,2)] and pm = padStart2_digits [OF assms(3,4)]
  show ?thesis
  proof (cases "digits_val mo > 12")
    case True
    then have "format_date d mo y =
        (if length y = 2 then ''20'' @ y else y) @ ''-'' @ padStart2 d @ ''-'' @ padStart2 mo"
      by (simp add: format_date_def Let_def)
    then show ?thesis using spec_date_syntax_build y pd pm by presburger
  next
    case False
    then have "format_date d mo y =
        (if length y = 2 then ''20'' @ y else y) @ ''-'' @ padStart2 mo @ ''-'' @ padStart2 d"
      by (simp add: format_date_def Let_def)
    then show ?thesis using spec_date_syntax_build y pd pm by presburger
  qed
qed

lemma detect_date_syntax:
  assumes "spec_date_syntax today"
    and "\<And>l m. l \<in> set lines \<Longrightarrow> exec dateRegex l = Some m \<Longrightarrow> length (parts m ! 5) \<noteq> 3"
  shows "spec_date_syntax (detect_date today lines)"
  using assms(2)
proof (induction lines)
  case Nil
  show ?case using assms(1) by simp
next
  case (Cons l ls)
  show ?case
  proof (cases "exec dateRegex l")
    case None
    have "spec_date_syntax (detect_date today ls)"
      by (rule Cons.IH) (rule Cons.prems, simp_all)
    with None show ?thesis by simp
  next
    case (Some m)
    from Cons.prems [OF _ Some] have "length (parts m ! 5) \<noteq> 3" by simp
    with date_groups [OF Some] have
      "spec_date_syntax (format_date (parts m ! 1) (parts m ! 3) (parts m ! 5))"
      by (intro format_date_syntax) auto
    with Some show ?thesis by simp
  qed
qed

section \<open>The claims\<close>

text \<open>
  C1. For the input text whose trimmed non-empty lines are \<open>MERCADONA S.A.\<close>, \<open>01/02/2024\<close>,
  \<open>2 PAN 0,50 1,00\<close> and \<open>TOTAL 1,00\<close>, \<open>parse\<close> returns the draft with merchant MERCADONA,
  date 2024-02-01, the one item PAN at 0.50, and total 1.00.
\<close>

theorem C1_end_to_end:
  assumes "lines_of rawText = [''MERCADONA S.A.'', ''01/02/2024'', ''2 PAN 0,50 1,00'', ''TOTAL 1,00'']"
  shows "parse maxArguments today rawText =
           Inr \<lparr>merchant = ''MERCADONA'', date = ''2024-02-01'', total = Fin 1,
                items = [\<lparr>description = ''PAN'', price = Fin (1 / 2), category = ''Otros''\<rparr>]\<rparr>"
  unfolding parse_def assms by code_simp

theorem C1_end_to_end_witness:
  "lines_of (''MERCADONA S.A.'' @ [CHR 0x0A] @ ''01/02/2024'' @ [CHR 0x0A] @
             '' 2 PAN 0,50 1,00'' @ [CHR 0x0A, CHR 0x0A] @ ''TOTAL 1,00 '')
     = [''MERCADONA S.A.'', ''01/02/2024'', ''2 PAN 0,50 1,00'', ''TOTAL 1,00'']
   \<and> parse 100000 ''2026-11-02''
         (''MERCADONA S.A.'' @ [CHR 0x0A] @ ''01/02/2024'' @ [CHR 0x0A] @
          '' 2 PAN 0,50 1,00'' @ [CHR 0x0A, CHR 0x0A] @ ''TOTAL 1,00 '')
     = Inr \<lparr>merchant = ''MERCADONA'', date = ''2024-02-01'', total = Fin 1,
            items = [\<lparr>description = ''PAN'', price = Fin (1 / 2), category = ''Otros''\<rparr>]\<rparr>"
proof -
  have h: "lines_of (''MERCADONA S.A.'' @ [CHR 0x0A] @ ''01/02/2024'' @ [CHR 0x0A] @
             '' 2 PAN 0,50 1,00'' @ [CHR 0x0A, CHR 0x0A] @ ''TOTAL 1,00 '')
     = [''MERCADONA S.A.'', ''01/02/2024'', ''2 PAN 0,50 1,00'', ''TOTAL 1,00'']"
    by code_simp
  show ?thesis by (rule conjI [OF h C1_end_to_end [OF h]])
qed

text \<open>
  C2 (amended). When no total line yields a value or the detected total is zero, or the
  detected total is more than 30 away from the calculated sum (in the code's double
  arithmetic), the total before the last fallback is the maximum of the detected total and
  the calculated sum rounded to two decimals by \<open>toFixed\<close>; a calculated sum of 45.00 with a
  detected total of 12.00 gives 45.00.
\<close>

theorem C2_reconciliation:
  assumes "extract_items (lines_of rawText) ([], Fin 0) = Inr (its, calculatedTotal)"
    and "detectedTotal = detect_total (lines_of rawText) (Fin 0)"
    and "detectedTotal = Fin 0
         \<or> num_less (Fin 30) (num_abs (num_sub detectedTotal calculatedTotal))"
  shows "reconcile detectedTotal calculatedTotal = num_max detectedTotal (toFixed2 calculatedTotal)
         \<and> parse maxArguments today rawText =
             (case final_sanity maxArguments
                     (num_max detectedTotal (toFixed2 calculatedTotal)) its of
                Inl e \<Rightarrow> Inl e
              | Inr t \<Rightarrow>
                  Inr \<lparr>merchant = detect_merchant (lines_of rawText),
                       date = detect_date today (lines_of rawText), total = t, items = its\<rparr>)
         \<and> (calculatedTotal = Fin 45 \<and> detectedTotal = Fin 12 \<longrightarrow>
               reconcile detectedTotal calculatedTotal = Fin 45)"
proof -
  have nd: "nonneg detectedTotal"
    unfolding assms(2) by (rule detect_total_nonneg) (simp add: nonneg_def)
  have nc: "nonneg calculatedTotal"
    by (rule extract_items_nonneg [OF assms(1)]) (simp add: nonneg_def)
  have r: "reconcile detectedTotal calculatedTotal = num_max detectedTotal (toFixed2 calculatedTotal)"
    by (rule reconcile_max [OF nd nc assms(3)])
  have p: "parse maxArguments today rawText =
             (case final_sanity maxArguments (reconcile detectedTotal calculatedTotal) its of
                Inl e \<Rightarrow> Inl e
              | Inr t \<Rightarrow>
                  Inr \<lparr>merchant = detect_merchant (lines_of rawText),
                       date = detect_date today (lines_of rawText), total = t, items = its\<rparr>)"
    by (simp add: parse_def Let_def assms(1) assms(2) [symmetric])
  have e: "reconcile (Fin 12) (Fin 45) = Fin 45" by code_simp
  show ?thesis
    using r p e by auto
qed

theorem C2_reconciliation_witness:
  "extract_items (lines_of (''CAFE 20,00'' @ [CHR 0x0A] @ ''TE 25,00'' @ [CHR 0x0A] @ ''TOTAL 12.00''))
       ([], Fin 0)
     = Inr ([\<lparr>description = ''CAFE'', price = Fin 20, category = ''Otros''\<rparr>,
             \<lparr>description = ''TE'', price = Fin 25, category = ''Otros''\<rparr>], Fin 45)
   \<and> detect_total (lines_of (''CAFE 20,00'' @ [CHR 0x0A] @ ''TE 25,00'' @ [CHR 0x0A] @ ''TOTAL 12.00''))
         (Fin 0)
       = Fin 12
   \<and> num_less (Fin 30) (num_abs (num_sub (Fin 12) (Fin 45)))
   \<and> reconcile (Fin 12) (Fin 45) = Fin 45
   \<and> parse 100000 ''2026-11-02''
         (''CAFE 20,00'' @ [CHR 0x0A] @ ''TE 25,00'' @ [CHR 0x0A] @ ''TOTAL 12.00'')
       = Inr \<lparr>merchant = ''Desconocido'', date = ''2026-11-02'', total = Fin 45,
              items = [\<lparr>description = ''CAFE'', price = Fin 20, category = ''Otros''\<rparr>,
                       \<lparr>description = ''TE'', price = Fin 25, category = ''Otros''\<rparr>]\<rparr>"
proof -
  let ?txt = "''CAFE 20,00'' @ [CHR 0x0A] @ ''TE 25,00'' @ [CHR 0x0A] @ ''TOTAL 12.00''"
  have h1: "extract_items (lines_of ?txt) ([], Fin 0)
     = Inr ([\<lparr>description = ''CAFE'', price = Fin 20, category = ''Otros''\<rparr>,
             \<lparr>description = ''TE'', price = Fin 25, category = ''Otros''\<rparr>], Fin 45)"
    by code_simp
  have h2: "Fin 12 = detect_total (lines_of ?txt) (Fin 0)"
    by code_simp
  have h3: "num_less (Fin 30) (num_abs (num_sub (Fin 12) (Fin 45)))"
    by code_simp
  have h4: "Fin 12 = Fin 0 \<or> num_less (Fin 30) (num_abs (num_sub (Fin 12) (Fin 45)))"
    using h3 by simp
  have m: "num_max (Fin 12) (toFixed2 (Fin 45)) = Fin 45" by code_simp
  have d: "detect_merchant (lines_of ?txt) = ''Desconocido''"
    "detect_date ''2026-11-02'' (lines_of ?txt) = ''2026-11-02''"
    by code_simp+
  show ?thesis
    using C2_reconciliation [OF h1 h2 h4, of 100000 "''2026-11-02''"] h1 h2 [symmetric] h3 m d
    by (simp add: final_sanity_def)
qed

theorem C2_counterexample:
  "extract_items (lines_of ''AB 1,001'') ([], Fin 0)
     = Inr ([\<lparr>description = ''AB'', price = to_double (1001 / 1000), category = ''Otros''\<rparr>],
            to_double (1001 / 1000))
   \<and> detect_total (lines_of ''AB 1,001'') (Fin 0) = Fin 0
   \<and> num_max (Fin 0) (to_double (1001 / 1000)) = to_double (1001 / 1000)
   \<and> num_less (Fin 1) (to_double (1001 / 1000))
   \<and> reconcile (Fin 0) (to_double (1001 / 1000)) = Fin 1
   \<and> parse 100000 ''2026-11-02'' ''AB 1,001''
       = Inr \<lparr>merchant = ''Desconocido'', date = ''2026-11-02'', total = Fin 1,
              items = [\<lparr>description = ''AB'', price = to_double (1001 / 1000),
                        category = ''Otros''\<rparr>]\<rparr>"
  by code_simp

text \<open>
  C3. On a line that yields an item, the stored price is the value of the only price token
  when there is one, and of the second-to-last token when there are two or more; the amount
  added to the running calculated total is the value of the last token in either case.
\<close>

theorem C3_price_selection:
  assumes "extract_item line = Inr (Some (it, amountForTotal))"
    and "ts = map whole (matchAll priceRegex line)"
  shows "ts \<noteq> []
         \<and> (length ts = 1 \<longrightarrow> price it = parsePrice (ts ! 0))
         \<and> (2 \<le> length ts \<longrightarrow> price it = parsePrice (ts ! (length ts - 2)))
         \<and> amountForTotal = parsePrice (last ts)
         \<and> extract_items (line # rest) (its, calculatedTotal)
             = extract_items rest (its @ [it], num_add calculatedTotal (parsePrice (last ts)))"
proof -
  let ?ms = "matchAll priceRegex line"
  have acc: "select_price ?ms = Inr (price it)" "?ms \<noteq> []"
    "amountForTotal = parsePrice (whole (last ?ms))"
    using extract_item_accepts [OF assms(1)] by simp_all
  have last: "last ts = whole (last ?ms)"
    using acc(2) assms(2) by (simp add: last_map)
  have one: "length ?ms = 1 \<Longrightarrow> price it = parsePrice (whole (?ms ! 0))"
    using acc(1) by (simp add: select_price_def prop_of_def Let_def)
  have two: "2 \<le> length ?ms \<Longrightarrow> price it = parsePrice (whole (?ms ! (length ?ms - 2)))"
    using acc(1) by (simp add: select_price_def prop_of_def Let_def nat_diff_distrib)
  show ?thesis
    using acc one two last assms by (simp add: nth_map)
qed

theorem C3_price_selection_witness:
  "extract_item ''2 PAN 0,50 1,00''
     = Inr (Some (\<lparr>description = ''PAN'', price = Fin (1 / 2), category = ''Otros''\<rparr>, Fin 1))
   \<and> map whole (matchAll priceRegex ''2 PAN 0,50 1,00'') = [''0,50'', ''1,00'']
   \<and> parsePrice ''0,50'' = Fin (1 / 2) \<and> parsePrice ''1,00'' = Fin 1
   \<and> extract_items [''2 PAN 0,50 1,00''] ([], Fin 0)
       = Inr ([\<lparr>description = ''PAN'', price = Fin (1 / 2), category = ''Otros''\<rparr>], Fin 1)"
proof -
  have h1: "extract_item ''2 PAN 0,50 1,00''
     = Inr (Some (\<lparr>description = ''PAN'', price = Fin (1 / 2), category = ''Otros''\<rparr>, Fin 1))"
    by code_simp
  have h2: "[''0,50'', ''1,00''] = map whole (matchAll priceRegex ''2 PAN 0,50 1,00'')"
    by code_simp
  have a: "num_add (Fin 0) (Fin 1) = Fin 1" by code_simp
  show ?thesis
    using C3_price_selection [OF h1 h2, of "[]" "[]" "Fin 0"] h1 h2 [symmetric] a by simp
qed

text \<open>
  C4. The price normalizer makes the rightmost separator the decimal point and removes all
  other separators. The code does not when the rightmost kind of separator occurs more than
  once: it turns the first comma, not the last, into the decimal point, and it leaves earlier
  dots in place.
\<close>

theorem C4_separator_slip:
  "parsePrice ''1.000,000,50'' = to_double (2000001 / 2000)
   \<and> num_less (parsePrice ''1.000,000,50'') (Fin 1001)
   \<and> parsePrice ''1.000,000,50'' \<noteq> Fin (2000001 / 2)
   \<and> parsePrice ''1,000.000.50'' = Fin 1000
   \<and> parsePrice ''1,000.000.50'' \<noteq> Fin (2000001 / 2)"
  by code_simp

text \<open>
  C5. The date is taken from the first line that matches the date pattern; its three groups
  are read as day, month and year, day and month are swapped when the month exceeds 12, a
  2-digit year gets the prefix 20, and day and month are padded to two digits. Both
  \<open>05/13/24\<close> and \<open>13/05/24\<close> give \<open>2024-05-13\<close>.
\<close>

theorem C5_date_extraction:
  "detect_date today lines =
     (case find (\<lambda>l. exec dateRegex l \<noteq> None) lines of
        None \<Rightarrow> today
      | Some l \<Rightarrow>
          (let m = the (exec dateRegex l);
               day = parts m ! 1; month = parts m ! 3; year = parts m ! 5;
               swap = (digits_val month > 12)
           in (if length year = 2 then ''20'' @ year else year) @ ''-'' @
              padStart2 (if swap then day else month) @ ''-'' @
              padStart2 (if swap then month else day)))
   \<and> detect_date today [''05/13/24''] = ''2024-05-13''
   \<and> detect_date today [''13/05/24''] = ''2024-05-13''
   \<and> detect_date today [''SUPER'', ''FECHA: 05/13/24 18:45'', ''01/01/2020''] = ''2024-05-13''
   \<and> detect_date today [''SUPER'', ''COMPRA 13/05/24'', ''01/01/2020''] = ''2024-05-13''
   \<and> detect_date today [''7-3-2023''] = ''2023-03-07''"
proof (intro conjI)
  show "detect_date today lines =
     (case find (\<lambda>l. exec dateRegex l \<noteq> None) lines of
        None \<Rightarrow> today
      | Some l \<Rightarrow>
          (let m = the (exec dateRegex l);
               day = parts m ! 1; month = parts m ! 3; year = parts m ! 5;
               swap = (digits_val month > 12)
           in (if length year = 2 then ''20'' @ year else year) @ ''-'' @
              padStart2 (if swap then day else month) @ ''-'' @
              padStart2 (if swap then month else day)))"
    by (induction lines) (auto simp: format_date_def Let_def)
qed code_simp+

text \<open>
  C6. Every item of the returned draft has a price strictly between 0 and 1000 and a
  description longer than one character; a line whose selected price is exactly 0 or
  exactly 1000 produces no item.
\<close>

theorem C6_items_in_range:
  "(parse maxArguments today rawText = Inr d \<longrightarrow>
      (\<forall>it \<in> set (items d).
         (\<exists>v. price it = Fin v \<and> 0 < v \<and> v < 1000) \<and> 1 < length (description it)))
   \<and> (select_price (matchAll priceRegex line) = Inr p \<and> (p = Fin 0 \<or> p = Fin 1000) \<longrightarrow>
        extract_item line = Inr None)"
proof (intro conjI impI)
  assume p: "parse maxArguments today rawText = Inr d"
  let ?P = "\<lambda>it. (\<exists>v. price it = Fin v \<and> 0 < v \<and> v < 1000) \<and> 1 < length (description it)"
  obtain r where r: "extract_items (lines_of rawText) ([], Fin 0) = Inr r"
    using extract_items_ok by blast
  obtain its c where rc: "r = (its, c)" by (cases r)
  have "?P it" if "extract_item l = Inr (Some (it, amt))" for l it amt
    using extract_item_accepts [OF that] between_Fin [of "price it"] by blast
  then have "list_all ?P its"
    by (intro extract_items_inv [where P = ?P, OF r [unfolded rc]]) simp_all
  moreover have "items d = its"
    using p r rc by (auto simp: parse_def Let_def split: sum.splits)
  ultimately show "\<forall>it \<in> set (items d). ?P it"
    by (simp add: list_all_iff)
next
  assume a: "select_price (matchAll priceRegex line) = Inr p \<and> (p = Fin 0 \<or> p = Fin 1000)"
  obtain r where r: "extract_item line = Inr r" using extract_item_ok by blast
  show "extract_item line = Inr None"
  proof (cases r)
    case None
    with r show ?thesis by simp
  next
    case (Some x)
    obtain it amt where "x = (it, amt)" by (cases x)
    with r Some have "extract_item line = Inr (Some (it, amt))" by simp
    from extract_item_accepts [OF this] a show ?thesis by auto
  qed
qed

theorem C6_items_in_range_witness:
  "parse 100000 ''2026-11-02'' (''2 PAN 0,50 1,00'' @ [CHR 0x0A] @ ''AGUA 0,00'')
     = Inr \<lparr>merchant = ''Desconocido'', date = ''2026-11-02'', total = Fin 1,
            items = [\<lparr>description = ''PAN'', price = Fin (1 / 2), category = ''Otros''\<rparr>]\<rparr>
   \<and> list_all (\<lambda>it. (\<exists>v. price it = Fin v \<and> 0 < v \<and> v < 1000) \<and> 1 < length (description it))
        [\<lparr>description = ''PAN'', price = Fin (1 / 2), category = ''Otros''\<rparr>]
   \<and> select_price (matchAll priceRegex ''LOTE 1000,00'') = Inr (Fin 1000)
   \<and> extract_item ''LOTE 1000,00'' = Inr None"
proof -
  have h1: "parse 100000 ''2026-11-02'' (''2 PAN 0,50 1,00'' @ [CHR 0x0A] @ ''AGUA 0,00'')
     = Inr \<lparr>merchant = ''Desconocido'', date = ''2026-11-02'', total = Fin 1,
            items = [\<lparr>description = ''PAN'', price = Fin (1 / 2), category = ''Otros''\<rparr>]\<rparr>"
    by code_simp
  have h2: "select_price (matchAll priceRegex ''LOTE 1000,00'') = Inr (Fin 1000)"
    by code_simp
  show ?thesis
    using C6_items_in_range [of 100000 "''2026-11-02''"
        "''2 PAN 0,50 1,00'' @ [CHR 0x0A] @ ''AGUA 0,00''"
        "\<lparr>merchant = ''Desconocido'', date = ''2026-11-02'', total = Fin 1,
            items = [\<lparr>description = ''PAN'', price = Fin (1 / 2), category = ''Otros''\<rparr>]\<rparr>"
        "''LOTE 1000,00''" "Fin 1000"] h1 h2
    by simp
qed

text \<open>
  C7 (amended). The merchant is the name of the first entry of the table, in its written
  order, one of whose patterns matches the upper-cased concatenation of the lines; matching
  ignores case. Every entry but DIA has a pattern that spells a word letter by letter with
  \<open>\\s*\<close> between the letters, and such a pattern matches its word with any white space
  between the letters. An input with the line \<open>M E R C A D O N A\<close>, in any case and with any
  white space between the letters, resolves to MERCADONA. The one pattern of DIA allows no
  white space between D and I: a line \<open>D I A\<close> does not resolve to DIA.
\<close>

theorem C7_merchant_resolution:
  "(establishments = before @ (name, regexes) # rest
      \<and> \<not> list_ex (\<lambda>(n, rxs). list_ex (\<lambda>rx. test rx (toUpperCase (join '' '' lines))) rxs) before
      \<and> list_ex (\<lambda>rx. test rx (toUpperCase (join '' '' lines))) regexes
    \<longrightarrow> detect_merchant lines = name)
   \<and> (l \<in> set lines \<and> toUpperCase l = spaced w gs \<and> list_all (list_all is_space) gs
        \<longrightarrow> test (ci_spaced w) (toUpperCase (join '' '' lines)))
   \<and> (l \<in> set lines \<and> toUpperCase l = spaced ''MERCADONA'' gs \<and> list_all (list_all is_space) gs
        \<longrightarrow> detect_merchant lines = ''MERCADONA'')
   \<and> (''M E R C A D O N A'' \<in> set lines \<longrightarrow> detect_merchant lines = ''MERCADONA'')
   \<and> map (\<lambda>(n, rxs). hd rxs) (filter (\<lambda>(n, rxs). n \<noteq> ''DIA'') establishments)
       = map ci_spaced [''MERCADONA'', ''CARREFOUR'', ''LIDL'', ''ALDI'', ''AHORRAMAS'', ''CONSUM'',
                        ''CORTEINGLES'', ''HIPERCOR'', ''EROSKI'']"
proof -
  let ?full = "toUpperCase (join '' '' lines)"
  have table: "map (\<lambda>(n, rxs). hd rxs) (filter (\<lambda>(n, rxs). n \<noteq> ''DIA'') establishments)
       = map ci_spaced [''MERCADONA'', ''CARREFOUR'', ''LIDL'', ''ALDI'', ''AHORRAMAS'', ''CONSUM'',
                        ''CORTEINGLES'', ''HIPERCOR'', ''EROSKI'']"
    by (simp add: establishments_def del: ci_spaced.simps)
  have first: "detect_merchant lines = name"
    if a: "establishments = before @ (name, regexes) # rest
      \<and> \<not> list_ex (\<lambda>(n, rxs). list_ex (\<lambda>rx. test rx ?full) rxs) before
      \<and> list_ex (\<lambda>rx. test rx ?full) regexes"
  proof -
    from a have k: "known_merchant ?full = Some name"
      using known_merchant_first [of before name regexes rest ?full] by blast
    from a have e: "establishments = before @ (name, regexes) # rest" by blast
    have "(name, regexes) \<in> set establishments" by (subst e) simp
    then have "name \<noteq> ''Desconocido''" by (rule establishments_names)
    with k show ?thesis by (rule detect_merchant_known)
  qed
  have spaced: "test (ci_spaced w) ?full"
    if "l \<in> set lines \<and> toUpperCase l = spaced w gs \<and> list_all (list_all is_space) gs"
    for l w gs
    using that spaced_test by blast
  have merc: "detect_merchant lines = ''MERCADONA''"
    if a: "l \<in> set lines \<and> toUpperCase l = spaced ''MERCADONA'' gs
           \<and> list_all (list_all is_space) gs" for l gs
  proof -
    have t: "test (ci_spaced ''MERCADONA'') ?full"
      using a spaced_test by blast
    obtain rest where e: "establishments =
        [] @ (''MERCADONA'', [ci_spaced ''MERCADONA'', ci_spaced ''MERKADONA'']) # rest"
      using mercadona_first by auto
    have "known_merchant ?full = Some ''MERCADONA''"
      by (rule known_merchant_first [OF e]) (simp_all add: t del: ci_spaced.simps)
    then show ?thesis
      by (rule detect_merchant_known) simp
  qed
  have plain: "detect_merchant lines = ''MERCADONA''" if "''M E R C A D O N A'' \<in> set lines"
  proof -
    have "toUpperCase ''M E R C A D O N A'' = spaced ''MERCADONA'' (replicate 8 '' '')"
      by code_simp
    moreover have "list_all (list_all is_space) (replicate 8 '' '')"
      by code_simp
    ultimately show ?thesis using that merc by blast
  qed
  show ?thesis
    using first spaced [of l w gs] merc [of l gs] plain table by blast
qed

theorem C7_merchant_resolution_witness:
  "establishments = take 2 establishments @ (''LIDL'', [ci_spaced ''LIDL'']) # drop 3 establishments
   \<and> \<not> list_ex (\<lambda>(n, rxs). list_ex (\<lambda>rx. test rx (toUpperCase (join '' '' [''Super'', ''Aldi y Lidl'']))) rxs)
          (take 2 establishments)
   \<and> list_ex (\<lambda>rx. test rx (toUpperCase (join '' '' [''Super'', ''Aldi y Lidl'']))) [ci_spaced ''LIDL'']
   \<and> detect_merchant [''Super'', ''Aldi y Lidl''] = ''LIDL''
   \<and> toUpperCase (''m  e r'' @ [CHR 0x09] @ ''cadon a'')
       = spaced ''MERCADONA'' [''  '', '' '', [CHR 0x09], [], [], [], [], '' '']
   \<and> list_all (list_all is_space) [''  '', '' '', [CHR 0x09], [], [], [], [], '' '']
   \<and> test (ci_spaced ''MERCADONA'')
        (toUpperCase (join '' '' [''Ticket 12'', ''m  e r'' @ [CHR 0x09] @ ''cadon a'']))
   \<and> detect_merchant [''Ticket 12'', ''m  e r'' @ [CHR 0x09] @ ''cadon a''] = ''MERCADONA''
   \<and> detect_merchant [''Ticket 12'', ''M E R C A D O N A''] = ''MERCADONA''"
proof -
  let ?ls = "[''Super'', ''Aldi y Lidl'']"
  let ?l = "''m  e r'' @ [CHR 0x09] @ ''cadon a''"
  let ?gs = "[''  '', '' '', [CHR 0x09], [], [], [], [], '' '']"
  have h1: "establishments = take 2 establishments @ (''LIDL'', [ci_spaced ''LIDL'']) # drop 3 establishments"
    by (simp add: establishments_def)
  have h2: "\<not> list_ex (\<lambda>(n, rxs). list_ex (\<lambda>rx. test rx (toUpperCase (join '' '' ?ls))) rxs)
          (take 2 establishments)"
    by code_simp
  have h3: "list_ex (\<lambda>rx. test rx (toUpperCase (join '' '' ?ls))) [ci_spaced ''LIDL'']"
    by code_simp
  have h4: "toUpperCase ?l = spaced ''MERCADONA'' ?gs"
    by code_simp
  have h5: "list_all (list_all is_space) ?gs"
    by code_simp
  note a = C7_merchant_resolution [of "take 2 establishments" "''LIDL''" "[ci_spaced ''LIDL'']"
        "drop 3 establishments" ?ls "''Aldi y Lidl''" "''MERCADONA''" ?gs]
  note b = C7_merchant_resolution [of "take 2 establishments" "''LIDL''" "[ci_spaced ''LIDL'']"
        "drop 3 establishments" "[''Ticket 12'', ?l]" ?l "''MERCADONA''" ?gs]
  note c = C7_merchant_resolution [of "take 2 establishments" "''LIDL''" "[ci_spaced ''LIDL'']"
        "drop 3 establishments" "[''Ticket 12'', ''M E R C A D O N A'']" ?l "''MERCADONA''" ?gs]
  have 1: "detect_merchant ?ls = ''LIDL''"
    using a h1 h2 h3 by blast
  have 2: "test (ci_spaced ''MERCADONA'') (toUpperCase (join '' '' [''Ticket 12'', ?l]))"
    "detect_merchant [''Ticket 12'', ?l] = ''MERCADONA''"
    using b h4 h5 by simp_all
  have 3: "detect_merchant [''Ticket 12'', ''M E R C A D O N A''] = ''MERCADONA''"
    using c by simp
  show ?thesis
    using h1 h2 h3 h4 h5 1 2 3 by (simp del: ci_spaced.simps)
qed

theorem C7_counterexample:
  "toUpperCase ''D I A'' = spaced ''DIA'' ['' '', '' '']
   \<and> known_merchant (toUpperCase (join '' '' [''D I A''])) = None
   \<and> detect_merchant [''D I A''] = ''D I A''
   \<and> detect_merchant [''DIA''] = ''DIA''"
  by code_simp

text \<open>
  C8. \<open>parse\<close> never throws and always returns a well-formed draft. The code throws a
  RangeError when more items than the engine takes as arguments of one call are extracted
  and the total is still zero, whatever the engine's limit is; and it returns a draft whose
  date is not well formed for a date with a 3-digit year.
\<close>

theorem C8_range_error:
  "parse (int n) today (concat (replicate (Suc n) (''AB 0,50 0,00'' @ [CHR 0x0A]))) = Inl RangeError
   \<and> parse maxArguments today ''3-4-567''
       = Inr \<lparr>merchant = ''Desconocido'', date = ''567-04-03'', total = Fin 0, items = []\<rparr>
   \<and> \<not> spec_date_syntax ''567-04-03''"
proof (intro conjI)
  let ?l = "''AB 0,50 0,00''"
  let ?it = "\<lparr>description = ''AB'', price = Fin (1 / 2), category = ''Otros''\<rparr>"
  have l: "lines_of (concat (replicate (Suc n) (?l @ [CHR 0x0A]))) = replicate (Suc n) ?l"
    by (rule lines_of_replicate) code_simp+
  have "extract_item ?l = Inr (Some (?it, Fin 0))" by code_simp
  then have e: "extract_items (replicate (Suc n) ?l) ([], Fin 0) = Inr ([] @ replicate (Suc n) ?it, Fin 0)"
    by (rule extract_items_replicate)
  have "\<not> isTotalLine ?l" by code_simp
  then have d: "detect_total (replicate (Suc n) ?l) (Fin 0) = Fin 0"
    by (rule detect_total_replicate)
  have r: "reconcile (Fin 0) (Fin 0) = Fin 0" by code_simp
  show "parse (int n) today (concat (replicate (Suc n) (?l @ [CHR 0x0A]))) = Inl RangeError"
    unfolding parse_def Let_def l
    by (simp add: e d r final_sanity_def del: replicate.simps)
qed code_simp+

text \<open>
  C9. The date of the draft is a syntactically valid \<open>YYYY-MM-DD\<close> string. The code breaks
  this on a date whose year group has three digits, which the pattern admits and the
  normalisation leaves as it is.
\<close>

theorem C9_three_digit_year:
  "parse maxArguments today ''1/2/123''
     = Inr \<lparr>merchant = ''Desconocido'', date = ''123-02-01'', total = Fin 0, items = []\<rparr>
   \<and> \<not> spec_date_syntax ''123-02-01''
   \<and> spec_date_syntax ''2024-02-01''"
  by code_simp

text \<open>
  C10. Every string that \<open>parse\<close> hands to the price normalizer is a match of the price
  pattern: digits, one separator, then two or three digits (two on a total line). On such a
  token the normalizer strips nothing, its letter substitutions change nothing, the branch for
  both separators is not taken, and the value is the number that the token denotes when its
  separator is read as the decimal point.
\<close>

theorem C10_normalizer_inputs:
  assumes "m \<in> set (matchAll priceRegex line) \<or> exec totalRegex line = Some m"
  shows "\<exists>ds sep fs. whole m = ds @ [sep] @ fs \<and> ds \<noteq> [] \<and> list_all is_digit ds
           \<and> is_price_sep sep \<and> list_all is_digit fs
           \<and> (length fs = 2 \<or> length fs = 3)
           \<and> (exec totalRegex line = Some m \<longrightarrow> length fs = 2)
           \<and> trim (remove_all is_currency (whole m)) = whole m
           \<and> ocr_fix (whole m) = whole m
           \<and> \<not> (CHR '','' \<in> set (whole m) \<and> CHR ''.'' \<in> set (whole m))
           \<and> parsePrice (whole m)
               = to_double (of_int (digits_val ds) + of_int (digits_val fs) / 10 ^ length fs)"
proof (cases "exec totalRegex line = Some m")
  case True
  then obtain prev s ns j where
    "match_here totalRegex prev s = Some ns" "m = mk_match j ns s"
    unfolding exec_def using exec_from_sound by blast
  then have "match_here [Rep is_digit 1 None, one is_price_sep, Rep is_digit 2 (Some 2)] prev s = Some ns"
    "whole m = take (sum_list ns) s"
    by (simp_all add: totalRegex_def mk_match_def)
  from token_facts [OF this] obtain ds sep fs where
    "whole m = ds @ [sep] @ fs \<and> ds \<noteq> [] \<and> list_all is_digit ds
       \<and> is_price_sep sep \<and> list_all is_digit fs \<and> 2 \<le> length fs \<and> length fs \<le> 2
       \<and> trim (remove_all is_currency (whole m)) = whole m \<and> ocr_fix (whole m) = whole m
       \<and> \<not> (CHR '','' \<in> set (whole m) \<and> CHR ''.'' \<in> set (whole m))
       \<and> parsePrice (whole m)
           = to_double (of_int (digits_val ds) + of_int (digits_val fs) / 10 ^ length fs)"
    by blast
  moreover from this have "length fs = 2" by linarith
  ultimately show ?thesis by blast
next
  case False
  with assms have "m \<in> set (matchAll priceRegex line)" by simp
  then obtain prev s ns j where
    "match_here priceRegex prev s = Some ns" "m = mk_match j ns s"
    using matchAll_sound by blast
  then have "match_here [Rep is_digit 1 None, one is_price_sep, Rep is_digit 2 (Some 3)] prev s = Some ns"
    "whole m = take (sum_list ns) s"
    by (simp_all add: priceRegex_def mk_match_def)
  from token_facts [OF this] obtain ds sep fs where
    f: "whole m = ds @ [sep] @ fs \<and> ds \<noteq> [] \<and> list_all is_digit ds
       \<and> is_price_sep sep \<and> list_all is_digit fs \<and> 2 \<le> length fs \<and> length fs \<le> 3
       \<and> trim (remove_all is_currency (whole m)) = whole m \<and> ocr_fix (whole m) = whole m
       \<and> \<not> (CHR '','' \<in> set (whole m) \<and> CHR ''.'' \<in> set (whole m))
       \<and> parsePrice (whole m)
           = to_double (of_int (digits_val ds) + of_int (digits_val fs) / 10 ^ length fs)"
    by blast
  then have "length fs = 2 \<or> length fs = 3" by linarith
  with f False show ?thesis by blast
qed

theorem C10_normalizer_inputs_witness:
  "\<lparr>index = 6, whole = ''0,50'', parts = [''0'', '','', ''50'']\<rparr>
     \<in> set (matchAll priceRegex ''2 PAN 0,50 1,00'')
   \<and> (\<exists>ds sep fs. ''0,50'' = ds @ [sep] @ fs \<and> ds \<noteq> [] \<and> list_all is_digit ds
           \<and> is_price_sep sep \<and> list_all is_digit fs
           \<and> (length fs = 2 \<or> length fs = 3)
           \<and> trim (remove_all is_currency ''0,50'') = ''0,50''
           \<and> ocr_fix ''0,50'' = ''0,50''
           \<and> parsePrice ''0,50''
               = to_double (of_int (digits_val ds) + of_int (digits_val fs) / 10 ^ length fs))"
proof -
  have h: "\<lparr>index = 6, whole = ''0,50'', parts = [''0'', '','', ''50'']\<rparr>
     \<in> set (matchAll priceRegex ''2 PAN 0,50 1,00'')
     \<or> exec totalRegex ''2 PAN 0,50 1,00''
         = Some \<lparr>index = 6, whole = ''0,50'', parts = [''0'', '','', ''50'']\<rparr>"
    by code_simp
  have h': "\<lparr>index = 6, whole = ''0,50'', parts = [''0'', '','', ''50'']\<rparr>
     \<in> set (matchAll priceRegex ''2 PAN 0,50 1,00'')"
    by code_simp
  from C10_normalizer_inputs [OF h] have
    "\<exists>ds sep fs. ''0,50'' = ds @ [sep] @ fs \<and> ds \<noteq> [] \<and> list_all is_digit ds
           \<and> is_price_sep sep \<and> list_all is_digit fs
           \<and> (length fs = 2 \<or> length fs = 3)
           \<and> trim (remove_all is_currency ''0,50'') = ''0,50''
           \<and> ocr_fix ''0,50'' = ''0,50''
           \<and> parsePrice ''0,50''
               = to_double (of_int (digits_val ds) + of_int (digits_val fs) / 10 ^ length fs)"
    by simp blast
  with h' show ?thesis by (rule conjI)
qed

end
